theory Spec2Isabelle
  imports Main
begin

section \<open>Errors, tags and concatenatability\<close>

text \<open>
  Every exception class raised by the modelled functions is a constructor; a function
  that can raise returns \<open>error + 'a\<close> with \<open>Inl\<close> for the exception.
\<close>

datatype error =
    NonConcatableExpression
  | InvalidConcatenatability
  | KeyError
  | IndexError
  | StopIteration
  | AttributeError
  | ValueError
  | NotImplementedError
  | AssertionError

text \<open>
  The tag vocabulary the pipeline recognises. \<open>OtherStrategy\<close> stands for any other
  subclass of \<open>ImplementationStrategy\<close>, \<open>OtherNameTag\<close> for any other subclass of the
  base class of the name tags, \<open>OtherTag\<close> for any tag the pipeline treats as opaque.
\<close>

datatype tag =
    ImplStored
  | ImplInlined
  | ImplSubstitution
  | OtherStrategy string
  | InlineCallTag
  | FunctionIdentifier string
  | ConcatenatedCallInputConcatAxisTag
  | ConcatenatedCallOutputSliceAxisTag
  | UseInputAxis "nat option" nat
  | Named string
  | PrefixNamed string
  | OtherNameTag string
  | ForceValueArgTag
  | OtherTag string

datatype concatenatability =
    ConcatableAlongAxis nat
  | ConcatableIfConstant

section \<open>Scalar expressions and \<open>_ScalarExprConcatabilityMapper\<close>\<close>

text \<open>
  The scalar expression tree of an \<open>IndexLambda\<close>. A subscript holds the name of its
  aggregate (the source reads \<open>expr.aggregate.name\<close> and never maps the aggregate) and
  its index tuple. \<open>Sum\<close>, \<open>Product\<close> and \<open>Call\<close> are the node kinds for which the
  mapper inherits the generic behaviour of a combine mapper: the results of the children
  are combined (for a call, the function symbol is a variable and is mapped as well).
\<close>

datatype sexpr =
    Constant int
  | Variable string
  | Subscript string "sexpr list"
  | Sum "sexpr list"
  | Product "sexpr list"
  | Call string "sexpr list"

text \<open>Decimal rendering of a natural number, as Python's f-string does for an int.\<close>

fun digit_char :: "nat \<Rightarrow> char" where
  "digit_char n = ''0123456789'' ! n"

fun str_nat :: "nat \<Rightarrow> string" where
  "str_nat n = (if n < 10 then [digit_char n] else str_nat (n div 10) @ [digit_char (n mod 10)])"

declare str_nat.simps [simp del]

text \<open>The name \<open>f"_{iaxis}"\<close> of the elementwise index of axis \<open>iaxis\<close>.\<close>

definition index_var_name :: "nat \<Rightarrow> string" where
  "index_var_name iaxis = CHR ''_'' # str_nat iaxis"

type_synonym binding_concats = "(string \<times> concatenatability) list"

text \<open>
  One iteration of the inner loop of \<open>combine\<close>: \<open>result[bnd_name]\<close> is read; a
  different recorded value raises, a missing key is inserted.
\<close>

fun combine_item :: "binding_concats \<Rightarrow> string \<times> concatenatability \<Rightarrow> error + binding_concats" where
  "combine_item result (bnd_name, iaxis) =
     (case map_of result bnd_name of
        Some c \<Rightarrow> (if c \<noteq> iaxis then Inl NonConcatableExpression else Inr result)
      | None \<Rightarrow> Inr (result @ [(bnd_name, iaxis)]))"

fun combine_items :: "binding_concats \<Rightarrow> (string \<times> concatenatability) list \<Rightarrow> error + binding_concats" where
  "combine_items result [] = Inr result"
| "combine_items result (item # items) =
     (case combine_item result item of
        Inl e \<Rightarrow> Inl e
      | Inr result' \<Rightarrow> combine_items result' items)"

text \<open>\<open>combine\<close>: the two nested loops run over the items of all values in order.\<close>

definition combine :: "binding_concats list \<Rightarrow> error + binding_concats" where
  "combine values = combine_items [] (concat values)"

text \<open>
  The mapper for axis \<open>iaxis\<close>. \<open>rec_list\<close> maps the children of an n-ary node,
  \<open>rec_indices\<close> is the loop of \<open>map_subscript\<close> over \<open>enumerate(expr.index_tuple)\<close>
  started at position \<open>j\<close>.
\<close>

fun
  rec_expr :: "nat \<Rightarrow> bool \<Rightarrow> sexpr \<Rightarrow> error + binding_concats" and
  rec_list :: "nat \<Rightarrow> bool \<Rightarrow> sexpr list \<Rightarrow> error + binding_concats list" and
  rec_indices :: "nat \<Rightarrow> bool \<Rightarrow> string \<Rightarrow> nat \<Rightarrow> sexpr list \<Rightarrow> error + binding_concats list"
where
  "rec_expr iaxis allow (Constant c) = Inr []"
| "rec_expr iaxis allow (Variable name) =
     (if name = index_var_name iaxis then Inl NonConcatableExpression else Inr [])"
| "rec_expr iaxis allow (Subscript name index_tuple) =
     (case rec_indices iaxis allow name 0 index_tuple of
        Inl e \<Rightarrow> Inl e
      | Inr rec_idxs \<Rightarrow>
          (case combine rec_idxs of
             Inl e \<Rightarrow> Inl e
           | Inr combined \<Rightarrow>
               (if map_of combined name = None
                then Inr (combined @ [(name, ConcatableIfConstant)])
                else Inr combined)))"
| "rec_expr iaxis allow (Sum children) =
     (case rec_list iaxis allow children of Inl e \<Rightarrow> Inl e | Inr vs \<Rightarrow> combine vs)"
| "rec_expr iaxis allow (Product children) =
     (case rec_list iaxis allow children of Inl e \<Rightarrow> Inl e | Inr vs \<Rightarrow> combine vs)"
| "rec_expr iaxis allow (Call fname parameters) =
     (case rec_expr iaxis allow (Variable fname) of
        Inl e \<Rightarrow> Inl e
      | Inr v \<Rightarrow>
          (case rec_list iaxis allow parameters of Inl e \<Rightarrow> Inl e | Inr vs \<Rightarrow> combine (v # vs)))"
| "rec_list iaxis allow [] = Inr []"
| "rec_list iaxis allow (child # children) =
     (case rec_expr iaxis allow child of
        Inl e \<Rightarrow> Inl e
      | Inr v \<Rightarrow>
          (case rec_list iaxis allow children of Inl e \<Rightarrow> Inl e | Inr vs \<Rightarrow> Inr (v # vs)))"
| "rec_indices iaxis allow name j [] = Inr []"
| "rec_indices iaxis allow name j (idx # rest) =
     (if idx = Variable (index_var_name iaxis)
      then (case rec_indices iaxis allow name (Suc j) rest of
              Inl e \<Rightarrow> Inl e
            | Inr vs \<Rightarrow> Inr ([(name, ConcatableAlongAxis j)] # vs))
      else (case rec_expr iaxis allow idx of
              Inl e \<Rightarrow> Inl e
            | Inr rec_idx \<Rightarrow>
                (if rec_idx \<noteq> [] \<and> \<not> allow
                 then Inl NonConcatableExpression
                 else (case rec_indices iaxis allow name (Suc j) rest of
                         Inl e \<Rightarrow> Inl e
                       | Inr vs \<Rightarrow> Inr (rec_idx # vs)))))"

text \<open>
  \<open>_get_binding_to_concatenatability\<close>: the memoisation of the source does not change
  the value; a bare number is answered without the mapper, with the empty mapping the
  mapper's \<open>map_constant\<close> gives as well.
\<close>

definition get_binding_to_concatenatability :: "sexpr \<Rightarrow> nat \<Rightarrow> bool \<Rightarrow> error + binding_concats" where
  "get_binding_to_concatenatability expr iaxis allow_indirect_addr =
     (case expr of Constant c \<Rightarrow> Inr [] | _ \<Rightarrow> rec_expr iaxis allow_indirect_addr expr)"

text \<open>
  The vocabulary of the property: the subexpressions the mapper can reach, the bare
  occurrences of the index variable (outside an index position that is the variable
  itself), any occurrence of it, and what one index tuple asks of its operand.
\<close>

fun subexprs :: "sexpr \<Rightarrow> sexpr list" where
  "subexprs (Constant c) = [Constant c]"
| "subexprs (Variable n) = [Variable n]"
| "subexprs (Subscript name idxs) = Subscript name idxs # concat (map subexprs idxs)"
| "subexprs (Sum cs) = Sum cs # concat (map subexprs cs)"
| "subexprs (Product cs) = Product cs # concat (map subexprs cs)"
| "subexprs (Call f ps) = Call f ps # Variable f # concat (map subexprs ps)"

fun occurs_bare :: "nat \<Rightarrow> sexpr \<Rightarrow> bool" where
  "occurs_bare a (Constant c) = False"
| "occurs_bare a (Variable n) = (n = index_var_name a)"
| "occurs_bare a (Subscript name idxs) =
     (\<exists>idx \<in> set idxs. idx \<noteq> Variable (index_var_name a) \<and> occurs_bare a idx)"
| "occurs_bare a (Sum cs) = (\<exists>c \<in> set cs. occurs_bare a c)"
| "occurs_bare a (Product cs) = (\<exists>c \<in> set cs. occurs_bare a c)"
| "occurs_bare a (Call f ps) = (f = index_var_name a \<or> (\<exists>c \<in> set ps. occurs_bare a c))"

definition mentions :: "nat \<Rightarrow> sexpr \<Rightarrow> bool" where
  "mentions a e = (Variable (index_var_name a) \<in> set (subexprs e))"

definition subscript_demand :: "nat \<Rightarrow> sexpr list \<Rightarrow> concatenatability \<Rightarrow> bool" where
  "subscript_demand a idxs c =
     ((\<exists>j < length idxs. idxs ! j = Variable (index_var_name a) \<and> c = ConcatableAlongAxis j)
      \<or> ((\<forall>idx \<in> set idxs. \<not> mentions a idx) \<and> c = ConcatableIfConstant))"

subsection \<open>Properties of \<open>combine\<close> and of the mapper\<close>

lemma combine_item_Inl: "combine_item r it = Inl e \<Longrightarrow> e = NonConcatableExpression"
  by (cases it) (auto split: option.splits if_splits)

lemma combine_items_Inl: "combine_items r its = Inl e \<Longrightarrow> e = NonConcatableExpression"
  by (induction its arbitrary: r) (auto split: sum.splits dest: combine_item_Inl)

lemma combine_Inl: "combine vs = Inl e \<Longrightarrow> e = NonConcatableExpression"
  unfolding combine_def by (rule combine_items_Inl)

lemma rec_Inl:
  "(rec_expr a al e = Inl err \<longrightarrow> err = NonConcatableExpression)"
  "(rec_list a al es = Inl err \<longrightarrow> err = NonConcatableExpression)"
  "(rec_indices a al nm j es = Inl err \<longrightarrow> err = NonConcatableExpression)"
  by (induction a al e and a al es and a al nm j es rule: rec_expr_rec_list_rec_indices.induct)
     (auto split: sum.splits if_splits dest: combine_Inl)

lemma combine_item_keeps:
  "combine_item r it = Inr r' \<Longrightarrow> map_of r k = Some c \<Longrightarrow> map_of r' k = Some c"
  by (cases it) (auto split: option.splits if_splits simp: map_of_append map_add_def)

lemma combine_item_adds:
  "combine_item r (k, c) = Inr r' \<Longrightarrow> map_of r' k = Some c"
  by (auto split: option.splits if_splits simp: map_of_append map_add_def)

lemma combine_item_origin:
  "combine_item r it = Inr r' \<Longrightarrow> map_of r' k = Some c \<Longrightarrow> map_of r k = Some c \<or> it = (k, c)"
  by (cases it) (auto split: option.splits if_splits simp: map_of_append map_add_def)

lemma combine_items_keeps:
  "combine_items r its = Inr m \<Longrightarrow> map_of r k = Some c \<Longrightarrow> map_of m k = Some c"
  by (induction its arbitrary: r) (auto split: sum.splits dest: combine_item_keeps)

lemma combine_items_adds:
  "combine_items r its = Inr m \<Longrightarrow> (k, c) \<in> set its \<Longrightarrow> map_of m k = Some c"
proof (induction its arbitrary: r)
  case Nil then show ?case by simp
next
  case (Cons it its)
  then obtain r' where r': "combine_item r it = Inr r'" and m: "combine_items r' its = Inr m"
    by (auto split: sum.splits)
  show ?case
  proof (cases "it = (k, c)")
    case True
    with r' have "map_of r' k = Some c" using combine_item_adds[of r k c r'] by simp
    with m show ?thesis by (rule combine_items_keeps)
  next
    case False
    with Cons.prems have "(k, c) \<in> set its" by auto
    with Cons.IH m show ?thesis by blast
  qed
qed

lemma combine_items_origin:
  "combine_items r its = Inr m \<Longrightarrow> map_of m k = Some c \<Longrightarrow> map_of r k = Some c \<or> (k, c) \<in> set its"
proof (induction its arbitrary: r)
  case Nil then show ?case by simp
next
  case (Cons it its)
  then obtain r' where r': "combine_item r it = Inr r'" and m: "combine_items r' its = Inr m"
    by (auto split: sum.splits)
  from Cons.IH[OF m Cons.prems(2)] have "map_of r' k = Some c \<or> (k, c) \<in> set its" .
  then show ?case using combine_item_origin[OF r'] by auto
qed

lemma combine_adds:
  "combine vs = Inr m \<Longrightarrow> v \<in> set vs \<Longrightarrow> (k, c) \<in> set v \<Longrightarrow> map_of m k = Some c"
  unfolding combine_def by (erule combine_items_adds) auto

lemma combine_origin:
  "combine vs = Inr m \<Longrightarrow> map_of m k = Some c \<Longrightarrow> \<exists>v \<in> set vs. (k, c) \<in> set v"
  unfolding combine_def by (drule combine_items_origin) auto


lemma rec_list_nth:
  "rec_list a al es = Inr vs \<Longrightarrow>
     length vs = length es \<and> (\<forall>i < length es. rec_expr a al (es ! i) = Inr (vs ! i))"
proof (induction es arbitrary: vs)
  case Nil then show ?case by simp
next
  case (Cons e es)
  then obtain v vs' where v: "rec_expr a al e = Inr v" and vs': "rec_list a al es = Inr vs'"
    and eq: "vs = v # vs'"
    by (auto split: sum.splits)
  from Cons.IH[OF vs'] show ?case using v eq by (auto simp: nth_Cons split: nat.splits)
qed

lemma rec_indices_nth:
  "rec_indices a al nm j es = Inr vs \<Longrightarrow>
     length vs = length es \<and>
     (\<forall>i < length es.
        if es ! i = Variable (index_var_name a)
        then vs ! i = [(nm, ConcatableAlongAxis (j + i))]
        else rec_expr a al (es ! i) = Inr (vs ! i) \<and> (vs ! i = [] \<or> al))"
proof (induction es arbitrary: vs j)
  case Nil then show ?case by simp
next
  case (Cons e es)
  show ?case
  proof (cases "e = Variable (index_var_name a)")
    case True
    with Cons.prems obtain vs' where vs': "rec_indices a al nm (Suc j) es = Inr vs'"
      and eq: "vs = [(nm, ConcatableAlongAxis j)] # vs'"
      by (auto split: sum.splits)
    from Cons.IH[OF vs'] show ?thesis using True eq
      by (auto simp: nth_Cons split: nat.splits)
  next
    case False
    with Cons.prems obtain v vs' where v: "rec_expr a al e = Inr v" and ok: "v = [] \<or> al"
      and vs': "rec_indices a al nm (Suc j) es = Inr vs'" and eq: "vs = v # vs'"
      by (auto split: sum.splits if_splits)
    from Cons.IH[OF vs'] show ?thesis using False v ok eq
      by (auto simp: nth_Cons split: nat.splits)
  qed
qed

lemma rec_subscript_has_name:
  assumes "rec_expr a al (Subscript nm idxs) = Inr m"
  shows "\<exists>c. map_of m nm = Some c"
  using assms by (auto split: sum.splits if_splits simp: map_of_append map_add_def)

lemma rec_subscript_from_combined:
  assumes "rec_expr a al (Subscript nm idxs) = Inr m"
  shows "\<exists>vs combined. rec_indices a al nm 0 idxs = Inr vs \<and> combine vs = Inr combined \<and>
    (\<forall>k c. map_of combined k = Some c \<longrightarrow> map_of m k = Some c) \<and>
    (\<forall>k c. map_of m k = Some c \<longrightarrow> map_of combined k = Some c \<or> (k = nm \<and> c = ConcatableIfConstant))"
proof -
  from assms obtain vs where vs: "rec_indices a al nm 0 idxs = Inr vs"
    by (auto split: sum.splits)
  with assms obtain combined where cb: "combine vs = Inr combined"
    by (auto split: sum.splits)
  have m: "m = (if map_of combined nm = None then combined @ [(nm, ConcatableIfConstant)] else combined)"
    using assms vs cb by (auto split: if_splits)
  have "\<forall>k c. map_of combined k = Some c \<longrightarrow> map_of m k = Some c"
    unfolding m by (auto simp: map_of_append map_add_def)
  moreover have "\<forall>k c. map_of m k = Some c \<longrightarrow> map_of combined k = Some c \<or> (k = nm \<and> c = ConcatableIfConstant)"
    unfolding m by (auto simp: map_of_append map_add_def split: option.splits if_splits)
  ultimately show ?thesis using vs cb by blast
qed

lemma subexprs_self: "e \<in> set (subexprs e)"
  by (cases e) auto

lemma rec_propagates:
  "rec_expr a al e = Inr m \<Longrightarrow> e' \<in> set (subexprs e) \<Longrightarrow> e' \<noteq> Variable (index_var_name a) \<Longrightarrow>
     \<exists>m'. rec_expr a al e' = Inr m' \<and> (\<forall>k c. map_of m' k = Some c \<longrightarrow> map_of m k = Some c)"
proof (induction e arbitrary: m)
  case (Constant x)
  then show ?case by auto
next
  case (Variable x)
  then show ?case by auto
next
  case (Subscript nm idxs)
  show ?case
  proof (cases "e' = Subscript nm idxs")
    case True
    with Subscript.prems show ?thesis by blast
  next
    case False
    with Subscript.prems obtain idx where idx: "idx \<in> set idxs" and e': "e' \<in> set (subexprs idx)"
      by auto
    from idx obtain i where i: "i < length idxs" "idxs ! i = idx" by (auto simp: in_set_conv_nth)
    from rec_subscript_from_combined[OF Subscript.prems(1)] obtain vs combined where
      vs: "rec_indices a al nm 0 idxs = Inr vs" and cb: "combine vs = Inr combined"
      and sub: "\<forall>k c. map_of combined k = Some c \<longrightarrow> map_of m k = Some c" by blast
    have ne: "idx \<noteq> Variable (index_var_name a)"
      using e' Subscript.prems(3) by auto
    from rec_indices_nth[OF vs] i ne have len: "length vs = length idxs"
      and ri: "rec_expr a al idx = Inr (vs ! i)" by auto
    from Subscript.IH[OF idx ri e' Subscript.prems(3)] obtain m' where
      m': "rec_expr a al e' = Inr m'" "\<forall>k c. map_of m' k = Some c \<longrightarrow> map_of (vs ! i) k = Some c"
      by blast
    have "vs ! i \<in> set vs" using i len by simp
    then have "\<forall>k c. map_of (vs ! i) k = Some c \<longrightarrow> map_of combined k = Some c"
      using combine_adds[OF cb] by (auto dest: map_of_SomeD)
    with m' sub show ?thesis by blast
  qed
next
  case (Sum cs)
  show ?case
  proof (cases "e' = Sum cs")
    case True
    with Sum.prems show ?thesis by blast
  next
    case False
    with Sum.prems obtain c where c: "c \<in> set cs" and e': "e' \<in> set (subexprs c)"
      by auto
    from c obtain i where i: "i < length cs" "cs ! i = c" by (auto simp: in_set_conv_nth)
    from Sum.prems(1) obtain vs where vs: "rec_list a al cs = Inr vs" and cb: "combine vs = Inr m"
      by (auto split: sum.splits)
    from rec_list_nth[OF vs] i have len: "length vs = length cs"
      and ri: "rec_expr a al c = Inr (vs ! i)" by auto
    from Sum.IH[OF c ri e' Sum.prems(3)] obtain m' where
      m': "rec_expr a al e' = Inr m'" "\<forall>k c. map_of m' k = Some c \<longrightarrow> map_of (vs ! i) k = Some c"
      by blast
    have "vs ! i \<in> set vs" using i len by simp
    then have "\<forall>k c. map_of (vs ! i) k = Some c \<longrightarrow> map_of m k = Some c"
      using combine_adds[OF cb] by (auto dest: map_of_SomeD)
    with m' show ?thesis by blast
  qed
next
  case (Product cs)
  show ?case
  proof (cases "e' = Product cs")
    case True
    with Product.prems show ?thesis by blast
  next
    case False
    with Product.prems obtain c where c: "c \<in> set cs" and e': "e' \<in> set (subexprs c)"
      by auto
    from c obtain i where i: "i < length cs" "cs ! i = c" by (auto simp: in_set_conv_nth)
    from Product.prems(1) obtain vs where vs: "rec_list a al cs = Inr vs" and cb: "combine vs = Inr m"
      by (auto split: sum.splits)
    from rec_list_nth[OF vs] i have len: "length vs = length cs"
      and ri: "rec_expr a al c = Inr (vs ! i)" by auto
    from Product.IH[OF c ri e' Product.prems(3)] obtain m' where
      m': "rec_expr a al e' = Inr m'" "\<forall>k c. map_of m' k = Some c \<longrightarrow> map_of (vs ! i) k = Some c"
      by blast
    have "vs ! i \<in> set vs" using i len by simp
    then have "\<forall>k c. map_of (vs ! i) k = Some c \<longrightarrow> map_of m k = Some c"
      using combine_adds[OF cb] by (auto dest: map_of_SomeD)
    with m' show ?thesis by blast
  qed
next
  case (Call f ps)
  show ?case
  proof (cases "e' = Call f ps")
    case True
    with Call.prems show ?thesis by blast
  next
    case False
    note nself = this
    show ?thesis
    proof (cases "e' = Variable f")
      case True
      with Call.prems(3) show ?thesis by auto
    next
      case False
      with nself Call.prems obtain c where c: "c \<in> set ps" and e': "e' \<in> set (subexprs c)"
        by auto
      from c obtain i where i: "i < length ps" "ps ! i = c" by (auto simp: in_set_conv_nth)
      from Call.prems(1) obtain v vs where vs: "rec_list a al ps = Inr vs"
        and cb: "combine (v # vs) = Inr m"
        by (auto split: sum.splits if_splits)
      from rec_list_nth[OF vs] i have len: "length vs = length ps"
        and ri: "rec_expr a al c = Inr (vs ! i)" by auto
      from Call.IH[OF c ri e' Call.prems(3)] obtain m' where
        m': "rec_expr a al e' = Inr m'" "\<forall>k c. map_of m' k = Some c \<longrightarrow> map_of (vs ! i) k = Some c"
        by blast
      have "vs ! i \<in> set (v # vs)" using i len by simp
      then have "\<forall>k c. map_of (vs ! i) k = Some c \<longrightarrow> map_of m k = Some c"
        using combine_adds[OF cb] by (auto dest: map_of_SomeD)
      with m' show ?thesis by blast
    qed
  qed
qed


lemma combine_item_member:
  "combine_item r it = Inr r' \<Longrightarrow> x \<in> set r' \<Longrightarrow> x \<in> set r \<or> x = it"
  by (cases it) (auto split: option.splits if_splits)

lemma combine_items_member:
  "combine_items r its = Inr m \<Longrightarrow> x \<in> set m \<Longrightarrow> x \<in> set r \<or> x \<in> set its"
proof (induction its arbitrary: r)
  case Nil then show ?case by simp
next
  case (Cons it its)
  then obtain r' where r': "combine_item r it = Inr r'" and m: "combine_items r' its = Inr m"
    by (auto split: sum.splits)
  from Cons.IH[OF m Cons.prems(2)] combine_item_member[OF r', of x] show ?case by auto
qed

lemma combine_member:
  "combine vs = Inr m \<Longrightarrow> x \<in> set m \<Longrightarrow> \<exists>v \<in> set vs. x \<in> set v"
  unfolding combine_def by (drule combine_items_member) auto

lemma rec_subscript_axis:
  assumes "rec_expr a al (Subscript nm idxs) = Inr m" "j < length idxs"
    "idxs ! j = Variable (index_var_name a)"
  shows "map_of m nm = Some (ConcatableAlongAxis j)"
proof -
  from rec_subscript_from_combined[OF assms(1)] obtain vs combined where
    vs: "rec_indices a al nm 0 idxs = Inr vs" and cb: "combine vs = Inr combined"
    and sub: "\<forall>k c. map_of combined k = Some c \<longrightarrow> map_of m k = Some c" by blast
  from rec_indices_nth[OF vs] assms(2,3) have len: "length vs = length idxs"
    and v: "vs ! j = [(nm, ConcatableAlongAxis j)]" by auto
  have "vs ! j \<in> set vs" using assms(2) len by simp
  from combine_adds[OF cb this, of nm "ConcatableAlongAxis j"] v
  have "map_of combined nm = Some (ConcatableAlongAxis j)" by simp
  with sub show ?thesis by blast
qed

lemma mentions_child:
  "\<not> mentions a (Subscript nm cs) \<Longrightarrow> c \<in> set cs \<Longrightarrow> \<not> mentions a c"
  "\<not> mentions a (Sum cs) \<Longrightarrow> c \<in> set cs \<Longrightarrow> \<not> mentions a c"
  "\<not> mentions a (Product cs) \<Longrightarrow> c \<in> set cs \<Longrightarrow> \<not> mentions a c"
  "\<not> mentions a (Call f cs) \<Longrightarrow> c \<in> set cs \<Longrightarrow> \<not> mentions a c"
  by (auto simp: mentions_def)

lemma not_mentions_not_var: "\<not> mentions a c \<Longrightarrow> c \<noteq> Variable (index_var_name a)"
  by (auto simp: mentions_def)

lemma rec_list_member:
  assumes "rec_list a al cs = Inr vs" "v \<in> set vs"
  shows "\<exists>c \<in> set cs. rec_expr a al c = Inr v"
proof -
  from assms(2) obtain i where i: "i < length vs" "vs ! i = v" by (auto simp: in_set_conv_nth)
  with rec_list_nth[OF assms(1)] show ?thesis by (metis nth_mem)
qed

lemma not_mentioned_all_constant:
  "\<not> mentions a e \<Longrightarrow> rec_expr a al e = Inr m \<Longrightarrow> (k, c) \<in> set m \<Longrightarrow> c = ConcatableIfConstant"
proof (induction e arbitrary: m)
  case (Constant x)
  then show ?case by auto
next
  case (Variable x)
  then show ?case by (auto split: if_splits)
next
  case (Subscript nm idxs)
  from rec_subscript_from_combined[OF Subscript.prems(2)] obtain vs combined where
    vs: "rec_indices a al nm 0 idxs = Inr vs" and cb: "combine vs = Inr combined"
    and org: "\<forall>k c. map_of m k = Some c \<longrightarrow> map_of combined k = Some c \<or> (k = nm \<and> c = ConcatableIfConstant)"
    by blast
  have m: "m = combined \<or> m = combined @ [(nm, ConcatableIfConstant)]"
    using Subscript.prems(2) vs cb by (auto split: if_splits)
  show ?case
  proof (cases "(k, c) \<in> set combined")
    case True
    from combine_member[OF cb True] obtain v where v: "v \<in> set vs" "(k, c) \<in> set v" by blast
    from v(1) obtain i where i: "i < length vs" "vs ! i = v" by (auto simp: in_set_conv_nth)
    from rec_indices_nth[OF vs] i have il: "i < length idxs" by simp
    then have mem: "idxs ! i \<in> set idxs" by simp
    from mentions_child(1)[OF Subscript.prems(1) mem] have nm': "\<not> mentions a (idxs ! i)" .
    with rec_indices_nth[OF vs] il i not_mentions_not_var[OF nm']
    have "rec_expr a al (idxs ! i) = Inr v" by auto
    from Subscript.IH[OF mem nm' this v(2)] show ?thesis .
  next
    case False
    with m Subscript.prems(3) show ?thesis by auto
  qed
next
  case (Sum cs)
  from Sum.prems(2) obtain vs where vs: "rec_list a al cs = Inr vs" and cb: "combine vs = Inr m"
    by (auto split: sum.splits)
  from combine_member[OF cb Sum.prems(3)] obtain v where v: "v \<in> set vs" "(k, c) \<in> set v" by blast
  from rec_list_member[OF vs v(1)] obtain ch where ch: "ch \<in> set cs" "rec_expr a al ch = Inr v" by blast
  from Sum.IH[OF ch(1) mentions_child(2)[OF Sum.prems(1) ch(1)] ch(2) v(2)] show ?case .
next
  case (Product cs)
  from Product.prems(2) obtain vs where vs: "rec_list a al cs = Inr vs" and cb: "combine vs = Inr m"
    by (auto split: sum.splits)
  from combine_member[OF cb Product.prems(3)] obtain v where v: "v \<in> set vs" "(k, c) \<in> set v" by blast
  from rec_list_member[OF vs v(1)] obtain ch where ch: "ch \<in> set cs" "rec_expr a al ch = Inr v" by blast
  from Product.IH[OF ch(1) mentions_child(3)[OF Product.prems(1) ch(1)] ch(2) v(2)] show ?case .
next
  case (Call f ps)
  from Call.prems(2) obtain vs where vs: "rec_list a al ps = Inr vs" and cb: "combine ([] # vs) = Inr m"
    by (auto split: sum.splits if_splits)
  from combine_member[OF cb Call.prems(3)] obtain v where v: "v \<in> set vs" "(k, c) \<in> set v" by auto
  from rec_list_member[OF vs v(1)] obtain ch where ch: "ch \<in> set ps" "rec_expr a al ch = Inr v" by blast
  from Call.IH[OF ch(1) mentions_child(4)[OF Call.prems(1) ch(1)] ch(2) v(2)] show ?case .
qed

lemma combine_nonempty:
  assumes "combine vs = Inr m" "v \<in> set vs" "v \<noteq> []"
  shows "m \<noteq> []"
proof -
  from assms(3) obtain k c where "(k, c) \<in> set v" by (cases v) auto
  from combine_adds[OF assms(1,2) this] show ?thesis by auto
qed

lemma mentioned_nonempty:
  "mentions a e \<Longrightarrow> rec_expr a al e \<noteq> Inr []"
proof (induction e)
  case (Constant x)
  then show ?case by (auto simp: mentions_def)
next
  case (Variable x)
  then show ?case by (auto simp: mentions_def)
next
  case (Subscript nm idxs)
  show ?case using rec_subscript_has_name[of a al nm idxs "[]"] by auto
next
  case (Sum cs)
  from Sum.prems obtain c where c: "c \<in> set cs" "mentions a c" by (auto simp: mentions_def)
  show ?case
  proof
    assume r: "rec_expr a al (Sum cs) = Inr []"
    then obtain vs where vs: "rec_list a al cs = Inr vs" and cb: "combine vs = Inr []"
      by (auto split: sum.splits)
    from c(1) obtain i where i: "i < length cs" "cs ! i = c" by (auto simp: in_set_conv_nth)
    with rec_list_nth[OF vs] have "rec_expr a al c = Inr (vs ! i)" "vs ! i \<in> set vs" by auto
    with Sum.IH[OF c] combine_nonempty[OF cb] show False by auto
  qed
next
  case (Product cs)
  from Product.prems obtain c where c: "c \<in> set cs" "mentions a c" by (auto simp: mentions_def)
  show ?case
  proof
    assume r: "rec_expr a al (Product cs) = Inr []"
    then obtain vs where vs: "rec_list a al cs = Inr vs" and cb: "combine vs = Inr []"
      by (auto split: sum.splits)
    from c(1) obtain i where i: "i < length cs" "cs ! i = c" by (auto simp: in_set_conv_nth)
    with rec_list_nth[OF vs] have "rec_expr a al c = Inr (vs ! i)" "vs ! i \<in> set vs" by auto
    with Product.IH[OF c] combine_nonempty[OF cb] show False by auto
  qed
next
  case (Call f ps)
  show ?case
  proof (cases "f = index_var_name a")
    case True
    then show ?thesis by simp
  next
    case False
    with Call.prems obtain c where c: "c \<in> set ps" "mentions a c" by (auto simp: mentions_def)
    show ?thesis
    proof
      assume r: "rec_expr a al (Call f ps) = Inr []"
      then obtain vs where vs: "rec_list a al ps = Inr vs" and cb: "combine ([] # vs) = Inr []"
        using False by (auto split: sum.splits)
      from c(1) obtain i where i: "i < length ps" "ps ! i = c" by (auto simp: in_set_conv_nth)
      with rec_list_nth[OF vs] have "rec_expr a al c = Inr (vs ! i)" "vs ! i \<in> set ([] # vs)" by auto
      with Call.IH[OF c] combine_nonempty[OF cb] show False by auto
    qed
  qed
qed

lemma rec_not_Inr_is_error:
  "(\<And>m. rec_expr a al e \<noteq> Inr m) \<Longrightarrow> rec_expr a al e = Inl NonConcatableExpression"
  using rec_Inl(1)[of a al e] by (cases "rec_expr a al e") auto

lemma bare_occurrence_rejected:
  "occurs_bare a e \<Longrightarrow> rec_expr a al e = Inl NonConcatableExpression"
proof (induction e)
  case (Constant x)
  then show ?case by simp
next
  case (Variable x)
  then show ?case by simp
next
  case (Subscript nm idxs)
  then obtain idx where idx: "idx \<in> set idxs" "idx \<noteq> Variable (index_var_name a)" "occurs_bare a idx"
    by auto
  from Subscript.IH[OF idx(1) idx(3)] have err: "rec_expr a al idx = Inl NonConcatableExpression" .
  from idx(1) obtain i where i: "i < length idxs" "idxs ! i = idx" by (auto simp: in_set_conv_nth)
  have "rec_expr a al (Subscript nm idxs) \<noteq> Inr m" for m
  proof
    assume "rec_expr a al (Subscript nm idxs) = Inr m"
    from rec_subscript_from_combined[OF this] obtain vs where "rec_indices a al nm 0 idxs = Inr vs" by blast
    from rec_indices_nth[OF this] i idx(2) err show False by auto
  qed
  then show ?case by (rule rec_not_Inr_is_error)
next
  case (Sum cs)
  then obtain c where c: "c \<in> set cs" "occurs_bare a c" by auto
  from Sum.IH[OF c] have err: "rec_expr a al c = Inl NonConcatableExpression" .
  from c(1) obtain i where i: "i < length cs" "cs ! i = c" by (auto simp: in_set_conv_nth)
  have "rec_expr a al (Sum cs) \<noteq> Inr m" for m
  proof
    assume "rec_expr a al (Sum cs) = Inr m"
    then obtain vs where "rec_list a al cs = Inr vs" by (auto split: sum.splits)
    from rec_list_nth[OF this] i err show False by auto
  qed
  then show ?case by (rule rec_not_Inr_is_error)
next
  case (Product cs)
  then obtain c where c: "c \<in> set cs" "occurs_bare a c" by auto
  from Product.IH[OF c] have err: "rec_expr a al c = Inl NonConcatableExpression" .
  from c(1) obtain i where i: "i < length cs" "cs ! i = c" by (auto simp: in_set_conv_nth)
  have "rec_expr a al (Product cs) \<noteq> Inr m" for m
  proof
    assume "rec_expr a al (Product cs) = Inr m"
    then obtain vs where "rec_list a al cs = Inr vs" by (auto split: sum.splits)
    from rec_list_nth[OF this] i err show False by auto
  qed
  then show ?case by (rule rec_not_Inr_is_error)
next
  case (Call f ps)
  show ?case
  proof (cases "f = index_var_name a")
    case True
    then show ?thesis by simp
  next
    case False
    with Call.prems obtain c where c: "c \<in> set ps" "occurs_bare a c" by auto
    from Call.IH[OF c] have err: "rec_expr a al c = Inl NonConcatableExpression" .
    from c(1) obtain i where i: "i < length ps" "ps ! i = c" by (auto simp: in_set_conv_nth)
    have "rec_expr a al (Call f ps) \<noteq> Inr m" for m
    proof
      assume "rec_expr a al (Call f ps) = Inr m"
      then obtain vs where "rec_list a al ps = Inr vs" by (auto split: sum.splits if_splits)
      from rec_list_nth[OF this] i err show False by auto
    qed
    then show ?thesis by (rule rec_not_Inr_is_error)
  qed
qed

lemma get_binding_eq: "get_binding_to_concatenatability e a al = rec_expr a al e"
  by (cases e) (simp_all add: get_binding_to_concatenatability_def)

lemma demand_recorded:
  assumes r: "rec_expr a al e = Inr m" and sub: "Subscript operand idxs \<in> set (subexprs e)"
    and d: "subscript_demand a idxs c"
  shows "map_of m operand = Some c"
proof -
  from rec_propagates[OF r sub] obtain m' where
    m': "rec_expr a al (Subscript operand idxs) = Inr m'"
    and le: "\<forall>k c. map_of m' k = Some c \<longrightarrow> map_of m k = Some c" by auto
  from d consider
    (axis) j where "j < length idxs" "idxs ! j = Variable (index_var_name a)" "c = ConcatableAlongAxis j"
    | (const) "\<forall>idx \<in> set idxs. \<not> mentions a idx" "c = ConcatableIfConstant"
    unfolding subscript_demand_def by blast
  then have "map_of m' operand = Some c"
  proof cases
    case axis
    with rec_subscript_axis[OF m'] show ?thesis by simp
  next
    case const
    then have nm: "\<not> mentions a (Subscript operand idxs)"
      by (auto simp: mentions_def)
    from rec_subscript_has_name[OF m'] obtain c' where c': "map_of m' operand = Some c'" by blast
    then have "(operand, c') \<in> set m'" by (rule map_of_SomeD)
    from not_mentioned_all_constant[OF nm m' this] c' const show ?thesis by simp
  qed
  with le show ?thesis by blast
qed

text \<open>
  Claim C2. Deriving the concatenability of an \<open>IndexLambda\<close> along output axis \<open>a\<close>
  from its scalar expression: (1) a bare occurrence of \<open>_a\<close> makes the expression not
  concatenatable; (2) whenever the mapper returns, an index position \<open>j\<close> of a subscript
  \<open>operand[...]\<close> that is \<open>_a\<close> is recorded as \<open>ConcatableAlongAxis j\<close> for the
  binding \<open>operand\<close>; (3) two subscripts of one binding (or two positions of one
  subscript) that demand different concatenabilities make the expression not
  concatenatable; (4) whenever the mapper returns, a subscript whose indices do not
  involve \<open>_a\<close> is recorded as \<open>ConcatableIfConstant\<close>; (5) without indirect
  addressing, \<open>_a\<close> inside an index expression other than \<open>_a\<close> itself is rejected.
\<close>

theorem scalar_expr_concatability:
  "(occurs_bare a e \<longrightarrow>
      get_binding_to_concatenatability e a al = Inl NonConcatableExpression)
   \<and> (get_binding_to_concatenatability e a al = Inr m
        \<and> Subscript operand idxs \<in> set (subexprs e)
        \<and> j < length idxs \<and> idxs ! j = Variable (index_var_name a)
      \<longrightarrow> map_of m operand = Some (ConcatableAlongAxis j))
   \<and> (Subscript operand idxs \<in> set (subexprs e)
        \<and> Subscript operand idxs' \<in> set (subexprs e)
        \<and> subscript_demand a idxs c \<and> subscript_demand a idxs' c' \<and> c \<noteq> c'
      \<longrightarrow> get_binding_to_concatenatability e a al = Inl NonConcatableExpression)
   \<and> (get_binding_to_concatenatability e a al = Inr m
        \<and> Subscript operand idxs \<in> set (subexprs e)
        \<and> (\<forall>idx \<in> set idxs. \<not> mentions a idx)
      \<longrightarrow> map_of m operand = Some ConcatableIfConstant)
   \<and> (Subscript operand idxs \<in> set (subexprs e)
        \<and> idx \<in> set idxs \<and> idx \<noteq> Variable (index_var_name a) \<and> mentions a idx
      \<longrightarrow> get_binding_to_concatenatability e a False = Inl NonConcatableExpression)"
proof (intro conjI impI)
  assume "occurs_bare a e"
  then show "get_binding_to_concatenatability e a al = Inl NonConcatableExpression"
    by (simp add: get_binding_eq bare_occurrence_rejected)
next
  assume h: "get_binding_to_concatenatability e a al = Inr m
        \<and> Subscript operand idxs \<in> set (subexprs e)
        \<and> j < length idxs \<and> idxs ! j = Variable (index_var_name a)"
  then have "subscript_demand a idxs (ConcatableAlongAxis j)"
    unfolding subscript_demand_def by blast
  with h demand_recorded[of a al e m operand idxs "ConcatableAlongAxis j"]
  show "map_of m operand = Some (ConcatableAlongAxis j)"
    by (simp add: get_binding_eq)
next
  assume h: "Subscript operand idxs \<in> set (subexprs e)
        \<and> Subscript operand idxs' \<in> set (subexprs e)
        \<and> subscript_demand a idxs c \<and> subscript_demand a idxs' c' \<and> c \<noteq> c'"
  have "rec_expr a al e \<noteq> Inr m'" for m'
  proof
    assume r: "rec_expr a al e = Inr m'"
    from h demand_recorded[OF r] have "map_of m' operand = Some c" "map_of m' operand = Some c'"
      by blast+
    with h show False by simp
  qed
  then show "get_binding_to_concatenatability e a al = Inl NonConcatableExpression"
    unfolding get_binding_eq by (rule rec_not_Inr_is_error)
next
  assume h: "get_binding_to_concatenatability e a al = Inr m
        \<and> Subscript operand idxs \<in> set (subexprs e)
        \<and> (\<forall>idx \<in> set idxs. \<not> mentions a idx)"
  then have "subscript_demand a idxs ConcatableIfConstant"
    unfolding subscript_demand_def by blast
  with h demand_recorded[of a al e m operand idxs ConcatableIfConstant]
  show "map_of m operand = Some ConcatableIfConstant"
    by (simp add: get_binding_eq)
next
  assume h: "Subscript operand idxs \<in> set (subexprs e)
        \<and> idx \<in> set idxs \<and> idx \<noteq> Variable (index_var_name a) \<and> mentions a idx"
  have "rec_expr a False e \<noteq> Inr m'" for m'
  proof
    assume r: "rec_expr a False e = Inr m'"
    from rec_propagates[OF r] h obtain m2 where
      m2: "rec_expr a False (Subscript operand idxs) = Inr m2" by blast
    from rec_subscript_from_combined[OF m2] obtain vs where
      vs: "rec_indices a False operand 0 idxs = Inr vs" by blast
    from h obtain i where i: "i < length idxs" "idxs ! i = idx" by (auto simp: in_set_conv_nth)
    with rec_indices_nth[OF vs] h have "rec_expr a False idx = Inr []" by auto
    with mentioned_nonempty[of a idx False] h show False by simp
  qed
  then show "get_binding_to_concatenatability e a False = Inl NonConcatableExpression"
    unfolding get_binding_eq by (rule rec_not_Inr_is_error)
qed

text \<open>Concrete runs of the mapper, one for each part of the claim.\<close>

lemma index_var_name_0: "index_var_name 0 = ''_0''"
  by (simp add: index_var_name_def str_nat.simps)

lemma combine_two: "combine [[(''x'', ConcatableAlongAxis 0)], [(''y'', ConcatableIfConstant)]] = Inr [(''x'', ConcatableAlongAxis 0), (''y'', ConcatableIfConstant)]"
  by (simp add: combine_def)

theorem scalar_expr_concatability_witness:
  "get_binding_to_concatenatability (Sum [Variable ''_0'', Constant 1]) 0 True
     = Inl NonConcatableExpression
   \<and> get_binding_to_concatenatability
        (Sum [Subscript ''x'' [Variable ''_0'', Variable ''_1''], Subscript ''y'' [Constant 0]]) 0 False
     = Inr [(''x'', ConcatableAlongAxis 0), (''y'', ConcatableIfConstant)]
   \<and> map_of [(''x'', ConcatableAlongAxis 0), (''y'', ConcatableIfConstant)] ''x''
     = Some (ConcatableAlongAxis 0)
   \<and> map_of [(''x'', ConcatableAlongAxis 0), (''y'', ConcatableIfConstant)] ''y''
     = Some ConcatableIfConstant
   \<and> get_binding_to_concatenatability (Subscript ''x'' [Variable ''_0'', Variable ''_0'']) 0 True
     = Inl NonConcatableExpression
   \<and> get_binding_to_concatenatability (Subscript ''x'' [Subscript ''i'' [Variable ''_0'']]) 0 False
     = Inl NonConcatableExpression"
proof -
  let ?e2 = "Sum [Subscript ''x'' [Variable ''_0'', Variable ''_1''], Subscript ''y'' [Constant 0]]"
  let ?m2 = "[(''x'', ConcatableAlongAxis 0), (''y'', ConcatableIfConstant)]"
  have v: "index_var_name 0 = ''_0''" by (rule index_var_name_0)
  have r2: "get_binding_to_concatenatability ?e2 0 False = Inr ?m2"
    by (simp add: get_binding_to_concatenatability_def v combine_def)
  have c1: "get_binding_to_concatenatability (Sum [Variable ''_0'', Constant 1]) 0 True
     = Inl NonConcatableExpression"
    using scalar_expr_concatability[of 0 "Sum [Variable ''_0'', Constant 1]" True]
    by (simp add: v)
  have c2: "map_of ?m2 ''x'' = Some (ConcatableAlongAxis 0)"
    using scalar_expr_concatability[of 0 ?e2 False ?m2 "''x''" "[Variable ''_0'', Variable ''_1'']" 0] r2
    by (simp add: v)
  have c4: "map_of ?m2 ''y'' = Some ConcatableIfConstant"
    using scalar_expr_concatability[of 0 ?e2 False ?m2 "''y''" "[Constant 0]"] r2
    by (simp add: v mentions_def)
  have d0: "subscript_demand 0 [Variable ''_0'', Variable ''_0''] (ConcatableAlongAxis 0)"
    unfolding subscript_demand_def by (rule disjI1, rule exI[of _ 0]) (simp add: v)
  have d1: "subscript_demand 0 [Variable ''_0'', Variable ''_0''] (ConcatableAlongAxis 1)"
    unfolding subscript_demand_def by (rule disjI1, rule exI[of _ 1]) (simp add: v)
  have c3: "get_binding_to_concatenatability (Subscript ''x'' [Variable ''_0'', Variable ''_0'']) 0 True
     = Inl NonConcatableExpression"
    using scalar_expr_concatability[of 0 "Subscript ''x'' [Variable ''_0'', Variable ''_0'']" True _
        "''x''" "[Variable ''_0'', Variable ''_0'']" _ "[Variable ''_0'', Variable ''_0'']"
        "ConcatableAlongAxis 0" "ConcatableAlongAxis 1"] d0 d1
    by simp
  have c5: "get_binding_to_concatenatability (Subscript ''x'' [Subscript ''i'' [Variable ''_0'']]) 0 False
     = Inl NonConcatableExpression"
    using scalar_expr_concatability[of 0 "Subscript ''x'' [Subscript ''i'' [Variable ''_0'']]" _ _
        "''x''" "[Subscript ''i'' [Variable ''_0'']]" _ _ _ _ "Subscript ''i'' [Variable ''_0'']"]
    by (simp add: v mentions_def)
  from c1 r2 c2 c4 c3 c5 show ?thesis by blast
qed

text \<open>
  With indirect addressing allowed, a data-dependent index is accepted and the indexee
  becomes \<open>ConcatableIfConstant\<close>; an arithmetic index expression over \<open>_a\<close> is
  rejected all the same, by the rule for the bare variable.
\<close>

lemma indirect_access_allowed_example:
  "get_binding_to_concatenatability (Subscript ''x'' [Subscript ''i'' [Variable ''_0'']]) 0 True
     = Inr [(''i'', ConcatableAlongAxis 0), (''x'', ConcatableIfConstant)]"
  by (simp add: get_binding_to_concatenatability_def index_var_name_0 combine_def)

lemma offset_index_rejected_example:
  "get_binding_to_concatenatability (Subscript ''x'' [Sum [Variable ''_0'', Constant 1]]) 0 True
     = Inl NonConcatableExpression"
  by (simp add: get_binding_to_concatenatability_def index_var_name_0 combine_def)

section \<open>Array expressions\<close>

text \<open>
  The attributes every array expression carries. Shape components are the integer ones;
  a dtype is identified by its name; \<open>axes\<close> holds the tag set of each dimension.
\<close>

record meta =
  shape :: "int list"
  dtype :: string
  axes :: "tag set list"
  tags :: "tag set"
  non_equality_tags :: "tag set"

text \<open>A basic index is a Python slice object \<open>slice(start, stop, step)\<close> or an integer.\<close>

datatype index =
    Slice "int option" "int option" "int option"
  | IntIndex int

datatype return_type = ARRAY | DICT_OF_ARRAYS | TUPLE_OF_ARRAYS

text \<open>
  The node kinds the call transformations build and take apart. An \<open>IndexLambda\<close>
  stands for every node with named operand bindings; a \<open>NamedCallResult\<close> refers to one
  named return of a call. Dictionaries whose iteration order the source relies on
  (bindings, returns) are association lists in insertion order.
\<close>

datatype array =
    Placeholder string meta
  | DataWrapper "string option" meta
  | IndexLambda sexpr "(string \<times> array) list" meta
  | Concatenate "array list" nat meta
  | BasicIndex array "index list" meta
  | NamedCallResult call string
and call = Call function_definition "(string \<times> array) list" "tag set"
and function_definition =
  FunctionDefinition "string set" return_type "(string \<times> array) list" "tag set"

text \<open>
  Reading the attributes of a node. A \<open>NamedCallResult\<close> has the attributes of the
  return it names, \<open>call.function.returns[name]\<close>, and raises \<open>KeyError\<close> when the
  function has no such return.
\<close>

fun meta_of :: "array \<Rightarrow> error + meta"
and call_return_meta :: "call \<Rightarrow> string \<Rightarrow> error + meta"
and fn_return_meta :: "function_definition \<Rightarrow> string \<Rightarrow> error + meta"
and returns_meta :: "(string \<times> array) list \<Rightarrow> string \<Rightarrow> error + meta"
where
  "meta_of (Placeholder n m) = Inr m"
| "meta_of (DataWrapper n m) = Inr m"
| "meta_of (IndexLambda e bs m) = Inr m"
| "meta_of (Concatenate arys ax m) = Inr m"
| "meta_of (BasicIndex a idx m) = Inr m"
| "meta_of (NamedCallResult c n) = call_return_meta c n"
| "call_return_meta (Call f bs ts) n = fn_return_meta f n"
| "fn_return_meta (FunctionDefinition ps rt rets ts) n = returns_meta rets n"
| "returns_meta [] n = Inl KeyError"
| "returns_meta ((k, a) # rest) n = (if k = n then meta_of a else returns_meta rest n)"

definition shape_of :: "array \<Rightarrow> error + int list" where
  "shape_of a = (case meta_of a of Inl e \<Rightarrow> Inl e | Inr m \<Rightarrow> Inr (shape m))"

definition ndim :: "array \<Rightarrow> error + nat" where
  "ndim a = (case shape_of a of Inl e \<Rightarrow> Inl e | Inr s \<Rightarrow> Inr (length s))"

text \<open>Indexing a tuple with a non-negative position.\<close>

definition py_nth :: "'a list \<Rightarrow> nat \<Rightarrow> error + 'a" where
  "py_nth xs i = (if i < length xs then Inr (xs ! i) else Inl IndexError)"

text \<open>\<open>ary.shape[iaxis]\<close>.\<close>

definition axis_len :: "array \<Rightarrow> nat \<Rightarrow> error + int" where
  "axis_len a iaxis = (case shape_of a of Inl e \<Rightarrow> Inl e | Inr s \<Rightarrow> py_nth s iaxis)"

text \<open>
  Python's \<open>all\<close> over a generator: it stops at the first false element, and an
  exception raised while an element is computed propagates.
\<close>

fun all_m :: "('a \<Rightarrow> error + bool) \<Rightarrow> 'a list \<Rightarrow> error + bool" where
  "all_m f [] = Inr True"
| "all_m f (x # xs) =
     (case f x of Inl e \<Rightarrow> Inl e | Inr b \<Rightarrow> (if b then all_m f xs else Inr False))"

section \<open>Plan validation: compatible shapes and fields\<close>

text \<open>
  The helper \<open>are_shape_components_equal\<close> of the utilities module, on the integer shape
  components of this model.
\<close>

definition are_shape_components_equal :: "int \<Rightarrow> int \<Rightarrow> bool" where
  "are_shape_components_equal dim1 dim2 = (dim1 = dim2)"

definition have_same_axis_length :: "array list \<Rightarrow> nat \<Rightarrow> error + bool" where
  "have_same_axis_length arrays iaxis =
     (case arrays of
        [] \<Rightarrow> Inl StopIteration
      | first # _ \<Rightarrow>
          (case axis_len first iaxis of
             Inl e \<Rightarrow> Inl e
           | Inr axis_length \<Rightarrow>
               all_m (\<lambda>other_ary.
                        case axis_len other_ary iaxis of
                          Inl e \<Rightarrow> Inl e
                        | Inr l \<Rightarrow> Inr (are_shape_components_equal l axis_length))
                     arrays))"

definition have_same_axis_length_except :: "array list \<Rightarrow> nat \<Rightarrow> error + bool" where
  "have_same_axis_length_except arrays iaxis =
     (case arrays of
        [] \<Rightarrow> Inl StopIteration
      | first # _ \<Rightarrow>
          (case ndim first of
             Inl e \<Rightarrow> Inl e
           | Inr n \<Rightarrow>
               (case all_m (\<lambda>ary. case ndim ary of Inl e \<Rightarrow> Inl e | Inr k \<Rightarrow> Inr (k = n)) arrays of
                  Inl e \<Rightarrow> Inl e
                | Inr same_ndim \<Rightarrow>
                    (if same_ndim
                     then all_m (\<lambda>idim. have_same_axis_length arrays idim)
                                (filter (\<lambda>idim. idim \<noteq> iaxis) [0..<n])
                     else Inr False))))"

text \<open>
  The fields \<open>_verify_arrays_can_be_concated_along_axis\<close> is asked to compare by its
  callers in this module, and \<open>getattr\<close> on them: every array has a dtype, only the
  input arguments have a name.
\<close>

datatype field = FieldDtype | FieldName

datatype field_value = DtypeValue string | NameValue "string option"

fun getattr :: "array \<Rightarrow> field \<Rightarrow> error + field_value" where
  "getattr ary FieldDtype =
     (case meta_of ary of Inl e \<Rightarrow> Inl e | Inr m \<Rightarrow> Inr (DtypeValue (dtype m)))"
| "getattr (Placeholder n m) FieldName = Inr (NameValue (Some n))"
| "getattr (DataWrapper n m) FieldName = Inr (NameValue n)"
| "getattr ary FieldName = Inl AttributeError"

text \<open>The set comprehension \<open>{getattr(ary, field) for ary in arrays}\<close>, as the list of its elements.\<close>

fun field_values :: "array list \<Rightarrow> field \<Rightarrow> error + field_value list" where
  "field_values [] f = Inr []"
| "field_values (ary # arrays) f =
     (case getattr ary f of
        Inl e \<Rightarrow> Inl e
      | Inr v \<Rightarrow> (case field_values arrays f of Inl e \<Rightarrow> Inl e | Inr vs \<Rightarrow> Inr (v # vs)))"

fun verify_fields :: "array list \<Rightarrow> field list \<Rightarrow> error + unit" where
  "verify_fields arrays [] = Inr ()"
| "verify_fields arrays (f # flds) =
     (case field_values arrays f of
        Inl e \<Rightarrow> Inl e
      | Inr vs \<Rightarrow>
          (if length (remdups vs) \<noteq> 1 then Inl InvalidConcatenatability
           else verify_fields arrays flds))"

definition verify_arrays_can_be_concated_along_axis ::
    "array list \<Rightarrow> field list \<Rightarrow> nat \<Rightarrow> error + unit" where
  "verify_arrays_can_be_concated_along_axis arrays fields_that_must_be_same iaxis =
     (case have_same_axis_length_except arrays iaxis of
        Inl e \<Rightarrow> Inl e
      | Inr ok \<Rightarrow>
          (if \<not> ok then Inl InvalidConcatenatability
           else verify_fields arrays fields_that_must_be_same))"

text \<open>\<open>sum(ary.shape[iaxis] for ary in arrays)\<close>.\<close>

fun sum_axis_lengths :: "array list \<Rightarrow> nat \<Rightarrow> error + int" where
  "sum_axis_lengths [] iaxis = Inr 0"
| "sum_axis_lengths (ary # arrays) iaxis =
     (case axis_len ary iaxis of
        Inl e \<Rightarrow> Inl e
      | Inr l \<Rightarrow> (case sum_axis_lengths arrays iaxis of Inl e \<Rightarrow> Inl e | Inr s \<Rightarrow> Inr (l + s)))"

definition get_concatenated_shape :: "array list \<Rightarrow> nat \<Rightarrow> error + int list" where
  "get_concatenated_shape arrays iaxis =
     (case sum_axis_lengths arrays iaxis of
        Inl e \<Rightarrow> Inl e
      | Inr concatenated_axis_length \<Rightarrow>
          (case arrays of
             [] \<Rightarrow> Inl StopIteration
           | template_ary # _ \<Rightarrow>
               (case shape_of template_ary of
                  Inl e \<Rightarrow> Inl e
                | Inr s \<Rightarrow>
                    Inr (map (\<lambda>(idim, dim). if idim \<noteq> iaxis then dim else concatenated_axis_length)
                             (enumerate 0 s)))))"

text \<open>
  The vocabulary of the property: the shape of an array whose attributes can be read,
  arrays all of whose compared attributes can be read, and the agreement the check asks
  for: equal number of dimensions, equal lengths on every axis but \<open>iaxis\<close>, and equal
  values of every field that must be the same.
\<close>

definition the_shape :: "array \<Rightarrow> int list" where
  "the_shape a = (case shape_of a of Inl e \<Rightarrow> [] | Inr s \<Rightarrow> s)"



text \<open>Concrete arrays: a placeholder \<open>x\<close> of shape 4 x 3 and two of shape 7 x 3.\<close>

definition plain_meta :: "int list \<Rightarrow> string \<Rightarrow> meta" where
  "plain_meta s d =
     \<lparr>shape = s, dtype = d, axes = replicate (length s) {}, tags = {}, non_equality_tags = {}\<rparr>"

definition x_4_3 :: array where "x_4_3 = Placeholder ''x'' (plain_meta [4, 3] ''float64'')"

definition x_7_3 :: array where "x_7_3 = Placeholder ''x'' (plain_meta [7, 3] ''float64'')"

definition x_7_3_f32 :: array where "x_7_3_f32 = Placeholder ''x'' (plain_meta [7, 3] ''float32'')"

subsection \<open>The checks on readable arrays\<close>

















text \<open>
  The caller-side bindings are checked with an empty list of fields, so for them the
  check compares shapes only.
\<close>

lemma binding_check_ignores_dtype:
  "verify_arrays_can_be_concated_along_axis [x_4_3, x_7_3_f32] [] 0 = Inr ()"
  by (simp add: verify_arrays_can_be_concated_along_axis_def have_same_axis_length_except_def
      have_same_axis_length_def ndim_def axis_len_def shape_of_def py_nth_def
      are_shape_components_equal_def x_4_3_def x_7_3_f32_def plain_meta_def)

section \<open>Building concatenated inputs and output slices\<close>

text \<open>
  \<open>Array.tagged\<close>: a copy of the node with the tag added to its tags.
\<close>

definition tagged_meta :: "meta \<Rightarrow> tag \<Rightarrow> meta" where
  "tagged_meta m t = m\<lparr>tags := tags m \<union> {t}\<rparr>"

text \<open>
  Modelled from the spec: \<open>with_tagged_axis\<close>, whose code is not among the sources. Every
  dimension has an axis descriptor carrying a set of tags; the method returns a copy of
  the node in which the tags are added to the descriptor of axis \<open>iaxis\<close>.
\<close>

definition with_tagged_axis_meta :: "meta \<Rightarrow> nat \<Rightarrow> tag set \<Rightarrow> error + meta" where
  "with_tagged_axis_meta m iaxis ts =
     (if iaxis < length (axes m)
      then Inr (m\<lparr>axes := (axes m)[iaxis := axes m ! iaxis \<union> ts]\<rparr>)
      else Inl IndexError)"

text \<open>
  Both methods on a node. A \<open>NamedCallResult\<close> has no tags of its own (the tags live on
  the return it names), so tagging it is refused.
\<close>

fun tagged :: "array \<Rightarrow> tag \<Rightarrow> error + array" where
  "tagged (Placeholder n m) t = Inr (Placeholder n (tagged_meta m t))"
| "tagged (DataWrapper n m) t = Inr (DataWrapper n (tagged_meta m t))"
| "tagged (IndexLambda e bs m) t = Inr (IndexLambda e bs (tagged_meta m t))"
| "tagged (Concatenate arys ax m) t = Inr (Concatenate arys ax (tagged_meta m t))"
| "tagged (BasicIndex a idx m) t = Inr (BasicIndex a idx (tagged_meta m t))"
| "tagged (NamedCallResult c n) t = Inl ValueError"

fun with_tagged_axis :: "array \<Rightarrow> nat \<Rightarrow> tag set \<Rightarrow> error + array" where
  "with_tagged_axis (Placeholder n m) iaxis ts =
     (case with_tagged_axis_meta m iaxis ts of Inl e \<Rightarrow> Inl e | Inr m' \<Rightarrow> Inr (Placeholder n m'))"
| "with_tagged_axis (DataWrapper n m) iaxis ts =
     (case with_tagged_axis_meta m iaxis ts of Inl e \<Rightarrow> Inl e | Inr m' \<Rightarrow> Inr (DataWrapper n m'))"
| "with_tagged_axis (IndexLambda e bs m) iaxis ts =
     (case with_tagged_axis_meta m iaxis ts of Inl e \<Rightarrow> Inl e | Inr m' \<Rightarrow> Inr (IndexLambda e bs m'))"
| "with_tagged_axis (Concatenate arys ax m) iaxis ts =
     (case with_tagged_axis_meta m iaxis ts of Inl e \<Rightarrow> Inl e | Inr m' \<Rightarrow> Inr (Concatenate arys ax m'))"
| "with_tagged_axis (BasicIndex a idx m) iaxis ts =
     (case with_tagged_axis_meta m iaxis ts of Inl e \<Rightarrow> Inl e | Inr m' \<Rightarrow> Inr (BasicIndex a idx m'))"
| "with_tagged_axis (NamedCallResult c n) iaxis ts = Inl ValueError"

text \<open>
  Modelled from the spec: the constructor \<open>concatenate(arrays, axis)\<close>, whose code is not
  among the sources. It builds a \<open>Concatenate\<close> node over arrays that agree off the
  axis; the node has the summed shape, the dtype the arrays promote to, an untagged
  descriptor for every axis and no tags. The dtype promotion is numpy's and is taken as
  the parameter \<open>result_type\<close>.
\<close>

fun dtypes_of :: "array list \<Rightarrow> error + string list" where
  "dtypes_of [] = Inr []"
| "dtypes_of (a # arrays) =
     (case meta_of a of
        Inl e \<Rightarrow> Inl e
      | Inr m \<Rightarrow> (case dtypes_of arrays of Inl e \<Rightarrow> Inl e | Inr ds \<Rightarrow> Inr (dtype m # ds)))"

definition concatenate :: "(string list \<Rightarrow> string) \<Rightarrow> array list \<Rightarrow> nat \<Rightarrow> error + array" where
  "concatenate result_type arrays axis =
     (case have_same_axis_length_except arrays axis of
        Inl e \<Rightarrow> Inl e
      | Inr ok \<Rightarrow>
          (if \<not> ok then Inl ValueError
           else (case get_concatenated_shape arrays axis of
                   Inl e \<Rightarrow> Inl e
                 | Inr s \<Rightarrow>
                     (case dtypes_of arrays of
                        Inl e \<Rightarrow> Inl e
                      | Inr ds \<Rightarrow>
                          Inr (Concatenate arrays axis
                                 \<lparr>shape = s, dtype = result_type ds,
                                  axes = replicate (length s) {}, tags = {},
                                  non_equality_tags = {}\<rparr>)))))"

text \<open>
  Modelled from the spec: basic indexing \<open>ary[indices]\<close> with one index per dimension,
  whose code is not among the sources. It builds a \<open>BasicIndex\<close> node; a slice keeps its
  axis with the length Python gives \<open>range(*slice.indices(n))\<close>, an integer index
  removes the axis.
\<close>

definition clamp_index :: "int \<Rightarrow> int \<Rightarrow> int \<Rightarrow> int \<Rightarrow> int" where
  "clamp_index n lower upper i =
     (if i < 0 then max (i + n) lower else min i upper)"

fun slice_length :: "int \<Rightarrow> index \<Rightarrow> error + int option" where
  "slice_length n (IntIndex i) =
     (if - n \<le> i \<and> i < n then Inr None else Inl IndexError)"
| "slice_length n (Slice start stop step) =
     (let st = (case step of None \<Rightarrow> 1 | Some s \<Rightarrow> s) in
      if st = 0 then Inl ValueError
      else
        let lower = (if 0 < st then 0 else - 1);
            upper = (if 0 < st then n else n - 1);
            a = (case start of
                   None \<Rightarrow> (if 0 < st then lower else upper)
                 | Some i \<Rightarrow> clamp_index n lower upper i);
            b = (case stop of
                   None \<Rightarrow> (if 0 < st then upper else lower)
                 | Some i \<Rightarrow> clamp_index n lower upper i)
        in Inr (Some (if 0 < st
                      then (if a < b then (b - a + st - 1) div st else 0)
                      else (if b < a then (a - b - st - 1) div (- st) else 0))))"

fun indexed_shape :: "int list \<Rightarrow> index list \<Rightarrow> error + int list" where
  "indexed_shape [] [] = Inr []"
| "indexed_shape (n # ns) (i # idxs) =
     (case slice_length n i of
        Inl e \<Rightarrow> Inl e
      | Inr l \<Rightarrow>
          (case indexed_shape ns idxs of
             Inl e \<Rightarrow> Inl e
           | Inr s \<Rightarrow> Inr (case l of None \<Rightarrow> s | Some k \<Rightarrow> k # s)))"
| "indexed_shape ns idxs = Inl IndexError"

definition getitem :: "array \<Rightarrow> index list \<Rightarrow> error + array" where
  "getitem ary indices =
     (case meta_of ary of
        Inl e \<Rightarrow> Inl e
      | Inr m \<Rightarrow>
          (case indexed_shape (shape m) indices of
             Inl e \<Rightarrow> Inl e
           | Inr s \<Rightarrow>
               Inr (BasicIndex ary indices
                      \<lparr>shape = s, dtype = dtype m, axes = replicate (length s) {},
                       tags = {}, non_equality_tags = {}\<rparr>)))"

text \<open>\<open>_InputConcatenator.__call__\<close>; the memoisation does not change the value.\<close>

definition input_concatenator ::
    "(string list \<Rightarrow> string) \<Rightarrow> bool \<Rightarrow> array list \<Rightarrow> nat \<Rightarrow> error + array" where
  "input_concatenator result_type inherit_axes arrays axis =
     (let concat_axis_tag =
            (if inherit_axes then UseInputAxis (Some 0) axis
             else ConcatenatedCallInputConcatAxisTag)
      in case concatenate result_type arrays axis of
           Inl e \<Rightarrow> Inl e
         | Inr c \<Rightarrow>
             (case with_tagged_axis c axis {concat_axis_tag} of
                Inl e \<Rightarrow> Inl e
              | Inr c' \<Rightarrow> tagged c' ImplStored))"

text \<open>\<open>_OutputSlicer._get_slice\<close>: a list assignment out of range raises.\<close>

definition get_slice :: "bool \<Rightarrow> array \<Rightarrow> nat \<Rightarrow> int \<Rightarrow> int \<Rightarrow> error + array" where
  "get_slice inherit_axes ary axis start_idx end_idx =
     (case ndim ary of
        Inl e \<Rightarrow> Inl e
      | Inr n \<Rightarrow>
          (if \<not> axis < n then Inl IndexError
           else
             let indices = (replicate n (Slice None None None))
                             [axis := Slice (Some start_idx) (Some end_idx) None];
                 slice_axis_tag =
                   (if inherit_axes then UseInputAxis None axis
                    else ConcatenatedCallOutputSliceAxisTag)
             in case getitem ary indices of
                  Inl e \<Rightarrow> Inl e
                | Inr s \<Rightarrow>
                    (case with_tagged_axis s axis {slice_axis_tag} of
                       Inl e \<Rightarrow> Inl e
                     | Inr s' \<Rightarrow> tagged s' ImplStored)))"

text \<open>
  The loop of \<open>_OutputSlicer.__call__\<close> that fills \<open>start_indices\<close> and \<open>end_indices\<close>
  from the second slice on; \<open>end_indices[-1]\<close> is the last element.
\<close>

fun slice_bounds_loop :: "int list \<Rightarrow> int list \<Rightarrow> int list \<Rightarrow> int list \<times> int list" where
  "slice_bounds_loop start_indices end_indices [] = (start_indices, end_indices)"
| "slice_bounds_loop start_indices end_indices (sz # sizes) =
     slice_bounds_loop (start_indices @ [last end_indices])
                       (end_indices @ [last end_indices + sz]) sizes"

definition slice_bounds :: "int list \<Rightarrow> int list \<times> int list" where
  "slice_bounds slice_sizes =
     (case slice_sizes of
        [] \<Rightarrow> ([], [])
      | size0 # sizes \<Rightarrow> slice_bounds_loop [0] [size0] sizes)"

fun get_slices :: "bool \<Rightarrow> array \<Rightarrow> nat \<Rightarrow> (int \<times> int) list \<Rightarrow> error + array list" where
  "get_slices inherit_axes ary axis [] = Inr []"
| "get_slices inherit_axes ary axis ((start_idx, end_idx) # bounds) =
     (case get_slice inherit_axes ary axis start_idx end_idx of
        Inl e \<Rightarrow> Inl e
      | Inr s \<Rightarrow>
          (case get_slices inherit_axes ary axis bounds of
             Inl e \<Rightarrow> Inl e
           | Inr ss \<Rightarrow> Inr (s # ss)))"

definition output_slicer :: "bool \<Rightarrow> array \<Rightarrow> nat \<Rightarrow> int list \<Rightarrow> error + array list" where
  "output_slicer inherit_axes ary axis slice_sizes =
     (case slice_bounds slice_sizes of
        (start_indices, end_indices) \<Rightarrow>
          get_slices inherit_axes ary axis (zip start_indices end_indices))"


section \<open>Splicing the slices in for the original results\<close>

text \<open>\<open>[cs[output_name].shape[axis] for cs in call_sites]\<close>, where \<open>cs[output_name]\<close> is the
  \<open>NamedCallResult\<close> of the call for that name.\<close>

fun slice_sizes_of :: "call list \<Rightarrow> string \<Rightarrow> nat \<Rightarrow> error + int list" where
  "slice_sizes_of [] output_name axis = Inr []"
| "slice_sizes_of (cs # call_sites) output_name axis =
     (case axis_len (NamedCallResult cs output_name) axis of
        Inl e \<Rightarrow> Inl e
      | Inr l \<Rightarrow>
          (case slice_sizes_of call_sites output_name axis of
             Inl e \<Rightarrow> Inl e
           | Inr ls \<Rightarrow> Inr (l # ls)))"

type_synonym replacement_map = "array \<rightharpoonup> array"

text \<open>A loop of dictionary assignments \<open>result[key] = value\<close>.\<close>

fun assign_each :: "replacement_map \<Rightarrow> (array \<times> array) list \<Rightarrow> replacement_map" where
  "assign_each result [] = result"
| "assign_each result ((k, v) # kvs) = assign_each (result(k \<mapsto> v)) kvs"

text \<open>
  One iteration of the last loop of \<open>_get_replacement_map_post_concatenating\<close>, for the
  return \<open>output_name\<close> of the template function: the concatenatability recorded for the
  return at the empty stack decides between the new return itself and its slices.
\<close>

definition replace_output ::
    "bool \<Rightarrow> call list \<Rightarrow> call \<Rightarrow> (call list \<times> array \<rightharpoonup> concatenatability) \<Rightarrow>
     replacement_map \<Rightarrow> string \<times> array \<Rightarrow> error + replacement_map" where
  "replace_output inherit_axes call_sites new_call ary_to_concatenatability result item =
     (case item of
        (output_name, output_ary) \<Rightarrow>
          (case ary_to_concatenatability ([], output_ary) of
             None \<Rightarrow> Inl KeyError
           | Some conc \<Rightarrow>
               (let new_return = NamedCallResult new_call output_name in
                case conc of
                  ConcatableIfConstant \<Rightarrow>
                    Inr (assign_each result
                           (map (\<lambda>cs. (NamedCallResult cs output_name, new_return)) call_sites))
                | ConcatableAlongAxis axis \<Rightarrow>
                    (case slice_sizes_of call_sites output_name axis of
                       Inl e \<Rightarrow> Inl e
                     | Inr slice_sizes \<Rightarrow>
                         (case output_slicer inherit_axes new_return axis slice_sizes of
                            Inl e \<Rightarrow> Inl e
                          | Inr output_slices \<Rightarrow>
                              Inr (assign_each result
                                     (map (\<lambda>(cs, output_slice).
                                             (NamedCallResult cs output_name, output_slice))
                                          (zip call_sites output_slices))))))))"

fun replace_outputs ::
    "bool \<Rightarrow> call list \<Rightarrow> call \<Rightarrow> (call list \<times> array \<rightharpoonup> concatenatability) \<Rightarrow>
     replacement_map \<Rightarrow> (string \<times> array) list \<Rightarrow> error + replacement_map" where
  "replace_outputs inherit_axes call_sites new_call a2c result [] = Inr result"
| "replace_outputs inherit_axes call_sites new_call a2c result (item # items) =
     (case replace_output inherit_axes call_sites new_call a2c result item of
        Inl e \<Rightarrow> Inl e
      | Inr result' \<Rightarrow> replace_outputs inherit_axes call_sites new_call a2c result' items)"

fun function_of :: "call \<Rightarrow> function_definition" where
  "function_of (Call f bs ts) = f"

fun bindings_of :: "call \<Rightarrow> (string \<times> array) list" where
  "bindings_of (Call f bs ts) = bs"

fun returns_of :: "function_definition \<Rightarrow> (string \<times> array) list" where
  "returns_of (FunctionDefinition ps rt rets ts) = rets"

text \<open>
  The slicing part of \<open>_get_replacement_map_post_concatenating\<close>: the loop runs over the
  returns of the template call site, the first of \<open>call_sites\<close>, starting from the empty
  dictionary.
\<close>

definition slice_new_call_outputs ::
    "bool \<Rightarrow> call list \<Rightarrow> call \<Rightarrow> (call list \<times> array \<rightharpoonup> concatenatability) \<Rightarrow>
     error + replacement_map" where
  "slice_new_call_outputs inherit_axes call_sites new_call a2c =
     (case call_sites of
        [] \<Rightarrow> Inl AssertionError
      | template_call_site # _ \<Rightarrow>
          replace_outputs inherit_axes call_sites new_call a2c Map.empty
            (returns_of (function_of template_call_site)))"

subsection \<open>The slice bounds and the dictionary the loop fills\<close>

lemma slice_bounds_loop_eq:
  "slice_bounds_loop starts ends sizes =
     (starts @ map (\<lambda>i. last ends + sum_list (take i sizes)) [0..<length sizes],
      ends @ map (\<lambda>i. last ends + sum_list (take (Suc i) sizes)) [0..<length sizes])"
  if "ends \<noteq> []"
  using that
proof (induction sizes arbitrary: starts ends)
  case Nil
  then show ?case by simp
next
  case (Cons s sizes)
  have "slice_bounds_loop starts ends (s # sizes)
      = slice_bounds_loop (starts @ [last ends]) (ends @ [last ends + s]) sizes" by simp
  also have "\<dots> = ((starts @ [last ends]) @ map (\<lambda>i. (last ends + s) + sum_list (take i sizes)) [0..<length sizes],
      (ends @ [last ends + s]) @ map (\<lambda>i. (last ends + s) + sum_list (take (Suc i) sizes)) [0..<length sizes])"
    by (subst Cons.IH) simp_all
  also have "\<dots> = (starts @ map (\<lambda>i. last ends + sum_list (take i (s # sizes))) [0..<length (s # sizes)],
      ends @ map (\<lambda>i. last ends + sum_list (take (Suc i) (s # sizes))) [0..<length (s # sizes)])"
    by (simp add: map_upt_Suc add.assoc del: upt_Suc)
  finally show ?case .
qed

lemma slice_bounds_eq:
  "slice_bounds sizes =
     (map (\<lambda>i. sum_list (take i sizes)) [0..<length sizes],
      map (\<lambda>i. sum_list (take (Suc i) sizes)) [0..<length sizes])"
proof (cases sizes)
  case Nil
  then show ?thesis by (simp add: slice_bounds_def)
next
  case (Cons s rest)
  show ?thesis unfolding Cons slice_bounds_def
    by (simp add: slice_bounds_loop_eq map_upt_Suc del: upt_Suc)
qed

lemma get_slices_nth:
  "get_slices inh ary axis bounds = Inr ss \<Longrightarrow>
     length ss = length bounds \<and>
     (\<forall>i < length bounds. get_slice inh ary axis (fst (bounds ! i)) (snd (bounds ! i)) = Inr (ss ! i))"
proof (induction bounds arbitrary: ss)
  case Nil
  then show ?case by simp
next
  case (Cons b bounds)
  obtain s e where b: "b = (s, e)" by (cases b)
  with Cons.prems obtain x ss' where x: "get_slice inh ary axis s e = Inr x"
    and ss': "get_slices inh ary axis bounds = Inr ss'" and eq: "ss = x # ss'"
    by (auto split: sum.splits)
  from Cons.IH[OF ss'] show ?case using x eq b by (auto simp: nth_Cons split: nat.splits)
qed

lemma output_slicer_nth:
  assumes "output_slicer inh ary axis sizes = Inr ss"
  shows "length ss = length sizes"
    and "i < length sizes \<Longrightarrow>
          get_slice inh ary axis (sum_list (take i sizes)) (sum_list (take i sizes) + sizes ! i)
            = Inr (ss ! i)"
proof -
  let ?b = "zip (map (\<lambda>i. sum_list (take i sizes)) [0..<length sizes])
                (map (\<lambda>i. sum_list (take (Suc i) sizes)) [0..<length sizes])"
  from assms have g: "get_slices inh ary axis ?b = Inr ss"
    by (simp add: output_slicer_def slice_bounds_eq)
  from get_slices_nth[OF g] show "length ss = length sizes" by simp
  assume i: "i < length sizes"
  then have "?b ! i = (sum_list (take i sizes), sum_list (take (Suc i) sizes))" by simp
  with get_slices_nth[OF g] i
  have "get_slice inh ary axis (sum_list (take i sizes)) (sum_list (take (Suc i) sizes)) = Inr (ss ! i)"
    by simp
  moreover have "sum_list (take (Suc i) sizes) = sum_list (take i sizes) + sizes ! i"
    using i by (simp add: take_Suc_conv_app_nth)
  ultimately show "get_slice inh ary axis (sum_list (take i sizes)) (sum_list (take i sizes) + sizes ! i)
            = Inr (ss ! i)"
    by simp
qed


text \<open>The marker tag of a slice axis, and the index tuple of a slice of length \<open>len\<close>.\<close>

definition slice_marker :: "bool \<Rightarrow> nat \<Rightarrow> tag" where
  "slice_marker inherit_axes axis =
     (if inherit_axes then UseInputAxis None axis else ConcatenatedCallOutputSliceAxisTag)"

definition slice_indices :: "nat \<Rightarrow> nat \<Rightarrow> int \<Rightarrow> int \<Rightarrow> index list" where
  "slice_indices n axis start len =
     (replicate n (Slice None None None))[axis := Slice (Some start) (Some (start + len)) None]"

lemma get_slice_result:
  assumes "get_slice inh ary axis s e = Inr a"
  shows "\<exists>n m. ndim ary = Inr n \<and> axis < n
           \<and> a = BasicIndex ary
                   ((replicate n (Slice None None None))[axis := Slice (Some s) (Some e) None]) m
           \<and> ImplStored \<in> tags m \<and> axis < length (axes m)
           \<and> slice_marker inh axis \<in> axes m ! axis"
proof -
  from assms obtain n where n: "ndim ary = Inr n" and ax: "axis < n"
    by (auto simp: get_slice_def split: sum.splits if_splits)
  let ?idx = "(replicate n (Slice None None None))[axis := Slice (Some s) (Some e) None]"
  from assms n ax obtain g where g: "getitem ary ?idx = Inr g"
    by (auto simp: get_slice_def Let_def split: sum.splits if_splits)
  then obtain m0 where g0: "g = BasicIndex ary ?idx m0"
    by (auto simp: getitem_def split: sum.splits)
  from assms n ax g obtain g' where g': "with_tagged_axis g axis {slice_marker inh axis} = Inr g'"
    and a: "tagged g' ImplStored = Inr a"
    by (auto simp: get_slice_def Let_def slice_marker_def split: sum.splits if_splits)
  from g' g0 have al: "axis < length (axes m0)"
    and g'eq: "g' = BasicIndex ary ?idx (m0\<lparr>axes := (axes m0)[axis := axes m0 ! axis \<union> {slice_marker inh axis}]\<rparr>)"
    by (auto simp: with_tagged_axis_meta_def split: sum.splits if_splits)
  from a g'eq have "a = BasicIndex ary ?idx
      (tagged_meta (m0\<lparr>axes := (axes m0)[axis := axes m0 ! axis \<union> {slice_marker inh axis}]\<rparr>) ImplStored)"
    by auto
  with n ax al show ?thesis by (auto simp: tagged_meta_def)
qed

lemma assign_each_other:
  "k \<notin> fst ` set kvs \<Longrightarrow> assign_each r kvs k = r k"
  by (induction kvs arbitrary: r) auto

lemma assign_each_distinct:
  "distinct (map fst kvs) \<Longrightarrow> (k, v) \<in> set kvs \<Longrightarrow> assign_each r kvs k = Some v"
proof (induction kvs arbitrary: r)
  case Nil
  then show ?case by simp
next
  case (Cons kv kvs)
  obtain k' v' where kv: "kv = (k', v')" by (cases kv)
  show ?case
  proof (cases "(k, v) \<in> set kvs")
    case True
    with Cons kv show ?thesis by auto
  next
    case False
    with Cons.prems kv have eq: "k' = k" "v' = v" by auto
    with Cons.prems kv have "k \<notin> fst ` set kvs" by auto
    from assign_each_other[OF this] show ?thesis using kv eq by simp
  qed
qed

lemma slice_sizes_of_nth:
  "slice_sizes_of css nm axis = Inr ls \<Longrightarrow>
     length ls = length css \<and>
     (\<forall>j < length css. axis_len (NamedCallResult (css ! j) nm) axis = Inr (ls ! j))"
proof (induction css arbitrary: ls)
  case Nil
  then show ?case by simp
next
  case (Cons c css)
  then obtain l ls' where l: "axis_len (NamedCallResult c nm) axis = Inr l"
    and ls': "slice_sizes_of css nm axis = Inr ls'" and eq: "ls = l # ls'"
    by (auto split: sum.splits)
  from Cons.IH[OF ls'] show ?case using l eq by (auto simp: nth_Cons split: nat.splits)
qed

lemma axis_len_the_shape:
  "axis_len a axis = Inr l \<Longrightarrow> l = the_shape a ! axis \<and> axis < length (the_shape a)"
  by (auto simp: axis_len_def the_shape_def py_nth_def split: sum.splits if_splits)

lemma replace_output_other:
  assumes "replace_output inh css new_call a2c result (nm', oa) = Inr result'" "nm' \<noteq> nm"
  shows "result' (NamedCallResult c nm) = result (NamedCallResult c nm)"
proof -
  from assms(1) obtain cc where cc: "a2c ([], oa) = Some cc"
    by (auto simp: replace_output_def split: option.splits)
  show ?thesis
  proof (cases cc)
    case ConcatableIfConstant
    let ?kvs = "map (\<lambda>cs. (NamedCallResult cs nm', NamedCallResult new_call nm')) css"
    from assms(1) cc ConcatableIfConstant have r: "result' = assign_each result ?kvs"
      by (simp add: replace_output_def)
    have "NamedCallResult c nm \<notin> fst ` set ?kvs" using assms(2) by auto
    from assign_each_other[OF this] r show ?thesis by simp
  next
    case (ConcatableAlongAxis axis)
    with assms(1) cc obtain slices where
      r: "result' = assign_each result
                (map (\<lambda>(cs, output_slice). (NamedCallResult cs nm', output_slice)) (zip css slices))"
      by (auto simp: replace_output_def split: sum.splits)
    have "NamedCallResult c nm \<notin>
        fst ` set (map (\<lambda>(cs, output_slice). (NamedCallResult cs nm', output_slice)) (zip css slices))"
      using assms(2) by auto
    from assign_each_other[OF this] r show ?thesis by simp
  qed
qed

lemma replace_outputs_other:
  "replace_outputs inh css new_call a2c result items = Inr result' \<Longrightarrow>
     nm \<notin> fst ` set items \<Longrightarrow>
     result' (NamedCallResult c nm) = result (NamedCallResult c nm)"
proof (induction items arbitrary: result)
  case Nil
  then show ?case by simp
next
  case (Cons item items)
  obtain nm' oa where item: "item = (nm', oa)" by (cases item)
  from Cons.prems(1) obtain r1 where r1: "replace_output inh css new_call a2c result item = Inr r1"
    and r2: "replace_outputs inh css new_call a2c r1 items = Inr result'"
    by (auto split: sum.splits)
  from Cons.prems(2) item have ne: "nm' \<noteq> nm" and ni: "nm \<notin> fst ` set items" by auto
  from Cons.IH[OF r2 ni] replace_output_other[OF r1[unfolded item] ne] show ?case by simp
qed

lemma replace_output_slice:
  assumes r: "replace_output inh css new_call a2c result (nm, oa) = Inr result'"
    and c: "a2c ([], oa) = Some (ConcatableAlongAxis axis)"
    and d: "distinct css" and i: "i < length css"
  shows "\<exists>n m. ndim (NamedCallResult new_call nm) = Inr n \<and> axis < n
      \<and> result' (NamedCallResult (css ! i) nm)
          = Some (BasicIndex (NamedCallResult new_call nm)
                    (slice_indices n axis
                       (\<Sum>j \<leftarrow> [0..<i]. the_shape (NamedCallResult (css ! j) nm) ! axis)
                       (the_shape (NamedCallResult (css ! i) nm) ! axis)) m)
      \<and> ImplStored \<in> tags m \<and> axis < length (axes m) \<and> slice_marker inh axis \<in> axes m ! axis"
proof -
  let ?new = "NamedCallResult new_call nm"
  from r c obtain sizes slices where sz: "slice_sizes_of css nm axis = Inr sizes"
    and sl: "output_slicer inh ?new axis sizes = Inr slices"
    and res: "result' = assign_each result
                (map (\<lambda>(cs, output_slice). (NamedCallResult cs nm, output_slice)) (zip css slices))"
    by (auto simp: replace_output_def Let_def split: sum.splits)
  from slice_sizes_of_nth[OF sz] have lsz: "length sizes = length css"
    and szn: "\<forall>j < length css. axis_len (NamedCallResult (css ! j) nm) axis = Inr (sizes ! j)"
    by auto
  have sizes: "sizes ! j = the_shape (NamedCallResult (css ! j) nm) ! axis" if "j < length css" for j
    using szn that axis_len_the_shape by blast
  from output_slicer_nth(1)[OF sl] lsz have lsl: "length slices = length css" by simp
  from i lsz have "i < length sizes" by simp
  from output_slicer_nth(2)[OF sl this]
  have gs: "get_slice inh ?new axis (sum_list (take i sizes)) (sum_list (take i sizes) + sizes ! i)
      = Inr (slices ! i)" .
  have tk: "sum_list (take i sizes) = (\<Sum>j \<leftarrow> [0..<i]. the_shape (NamedCallResult (css ! j) nm) ! axis)"
  proof -
    have "take i sizes = map (\<lambda>j. sizes ! j) [0..<i]"
      using i lsz by (intro nth_equalityI) auto
    also have "\<dots> = map (\<lambda>j. the_shape (NamedCallResult (css ! j) nm) ! axis) [0..<i]"
      using i sizes by (intro map_cong) auto
    finally show ?thesis by simp
  qed
  let ?kvs = "map (\<lambda>(cs, output_slice). (NamedCallResult cs nm, output_slice)) (zip css slices)"
  have fsts: "map fst ?kvs = map (\<lambda>cs. NamedCallResult cs nm) css"
    using lsl by (intro nth_equalityI) auto
  have "distinct (map fst ?kvs)"
    unfolding fsts using d by (simp add: distinct_map inj_on_def)
  moreover have "(NamedCallResult (css ! i) nm, slices ! i) \<in> set ?kvs"
  proof -
    have "(css ! i, slices ! i) \<in> set (zip css slices)"
      using i lsl by (auto simp: set_zip)
    then show ?thesis by force
  qed
  ultimately have look: "result' (NamedCallResult (css ! i) nm) = Some (slices ! i)"
    unfolding res by (rule assign_each_distinct)
  from get_slice_result[OF gs] obtain n m where n: "ndim ?new = Inr n" "axis < n"
    and eq: "slices ! i = BasicIndex ?new
        ((replicate n (Slice None None None))
           [axis := Slice (Some (sum_list (take i sizes))) (Some (sum_list (take i sizes) + sizes ! i)) None]) m"
    and tg: "ImplStored \<in> tags m" "axis < length (axes m)" "slice_marker inh axis \<in> axes m ! axis"
    by blast
  show ?thesis
    using n look tg unfolding eq slice_indices_def tk sizes[OF i] by blast
qed


lemma replace_outputs_slice:
  "replace_outputs inh css new_call a2c result items = Inr result' \<Longrightarrow>
   distinct (map fst items) \<Longrightarrow> (nm, oa) \<in> set items \<Longrightarrow>
   a2c ([], oa) = Some (ConcatableAlongAxis axis) \<Longrightarrow> distinct css \<Longrightarrow> i < length css \<Longrightarrow>
   \<exists>n m. ndim (NamedCallResult new_call nm) = Inr n \<and> axis < n
      \<and> result' (NamedCallResult (css ! i) nm)
          = Some (BasicIndex (NamedCallResult new_call nm)
                    (slice_indices n axis
                       (\<Sum>j \<leftarrow> [0..<i]. the_shape (NamedCallResult (css ! j) nm) ! axis)
                       (the_shape (NamedCallResult (css ! i) nm) ! axis)) m)
      \<and> ImplStored \<in> tags m \<and> axis < length (axes m) \<and> slice_marker inh axis \<in> axes m ! axis"
proof (induction items arbitrary: result)
  case Nil
  then show ?case by simp
next
  case (Cons item items)
  from Cons.prems(1) obtain r1 where r1: "replace_output inh css new_call a2c result item = Inr r1"
    and r2: "replace_outputs inh css new_call a2c r1 items = Inr result'"
    by (auto split: sum.splits)
  show ?case
  proof (cases "item = (nm, oa)")
    case True
    with Cons.prems(2) have "nm \<notin> fst ` set items" by auto
    from replace_outputs_other[OF r2 this]
    have keep: "result' (NamedCallResult (css ! i) nm) = r1 (NamedCallResult (css ! i) nm)" .
    from replace_output_slice[OF r1[unfolded True] Cons.prems(4,5,6)] show ?thesis
      unfolding keep .
  next
    case False
    with Cons.prems(3) have "(nm, oa) \<in> set items" by auto
    moreover from Cons.prems(2) have "distinct (map fst items)" by simp
    ultimately show ?thesis using Cons.IH[OF r2] Cons.prems(4,5,6) by blast
  qed
qed

text \<open>
  The vocabulary of the property: the cumulative start of the slice of call site \<open>i\<close>
  and its length, read from the original results \<open>S\<^sub>j[name]\<close>.
\<close>

definition slice_start :: "call list \<Rightarrow> string \<Rightarrow> nat \<Rightarrow> nat \<Rightarrow> int" where
  "slice_start call_sites name axis i =
     (\<Sum>j \<leftarrow> [0..<i]. the_shape (NamedCallResult (call_sites ! j) name) ! axis)"

definition slice_len :: "call list \<Rightarrow> string \<Rightarrow> nat \<Rightarrow> nat \<Rightarrow> int" where
  "slice_len call_sites name axis i = the_shape (NamedCallResult (call_sites ! i) name) ! axis"

text \<open>
  Claim C1. When the plan concatenates the return \<open>name\<close> along \<open>axis\<close> and the
  slicing returns, the original result \<open>S\<^sub>i[name]\<close> of every call site is replaced by a
  basic index into the new call's return \<open>name\<close> that takes the whole of every other axis
  and, along \<open>axis\<close>, the slice from the sum of \<open>S\<^sub>j[name].shape[axis]\<close> over \<open>j < i\<close>
  to that sum plus \<open>S\<^sub>i[name].shape[axis]\<close>. The first start is 0 and each start is
  the previous slice's end. Call sites are distinct and return names are distinct, as
  elements of a set and keys of a dictionary are.
\<close>

theorem output_slices_contiguous:
  assumes "slice_new_call_outputs inherit_axes call_sites new_call a2c = Inr result"
    and "distinct call_sites"
    and "distinct (map fst (returns_of (function_of (hd call_sites))))"
    and "(name, output_ary) \<in> set (returns_of (function_of (hd call_sites)))"
    and "a2c ([], output_ary) = Some (ConcatableAlongAxis axis)"
    and "i < length call_sites"
  shows "(\<exists>n m. ndim (NamedCallResult new_call name) = Inr n \<and> axis < n
           \<and> result (NamedCallResult (call_sites ! i) name)
               = Some (BasicIndex (NamedCallResult new_call name)
                         ((replicate n (Slice None None None))
                            [axis := Slice (Some (slice_start call_sites name axis i))
                                           (Some (slice_start call_sites name axis i
                                                  + slice_len call_sites name axis i))
                                           None]) m))
         \<and> slice_start call_sites name axis 0 = 0
         \<and> slice_start call_sites name axis (Suc i)
             = slice_start call_sites name axis i + slice_len call_sites name axis i"
proof -
  from assms(6) obtain t rest where cs: "call_sites = t # rest" by (cases call_sites) auto
  with assms(1) have r: "replace_outputs inherit_axes call_sites new_call a2c Map.empty
      (returns_of (function_of (hd call_sites))) = Inr result"
    by (simp add: slice_new_call_outputs_def)
  from replace_outputs_slice[OF r assms(3,4,5,2,6)]
  have "\<exists>n m. ndim (NamedCallResult new_call name) = Inr n \<and> axis < n
           \<and> result (NamedCallResult (call_sites ! i) name)
               = Some (BasicIndex (NamedCallResult new_call name)
                         ((replicate n (Slice None None None))
                            [axis := Slice (Some (slice_start call_sites name axis i))
                                           (Some (slice_start call_sites name axis i
                                                  + slice_len call_sites name axis i))
                                           None]) m)"
    unfolding slice_indices_def slice_start_def slice_len_def by blast
  moreover have "slice_start call_sites name axis 0 = 0"
    by (simp add: slice_start_def)
  moreover have "slice_start call_sites name axis (Suc i)
             = slice_start call_sites name axis i + slice_len call_sites name axis i"
    by (simp add: slice_start_def slice_len_def)
  ultimately show ?thesis by blast
qed

text \<open>
  Two call sites whose return \<open>out\<close> has shapes 4 x 3 and 7 x 3, and the concatenated
  call whose return has shape 11 x 3.
\<close>

definition out_11 :: array where
  "out_11 = IndexLambda (Subscript ''in'' [Variable ''_0'', Variable ''_1''])
              [(''in'', Placeholder ''x'' (plain_meta [11, 3] ''float64''))]
              (plain_meta [11, 3] ''float64'')"

definition out_4 :: array where
  "out_4 = IndexLambda (Subscript ''in'' [Variable ''_0'', Variable ''_1''])
             [(''in'', x_4_3)] (plain_meta [4, 3] ''float64'')"

definition out_7 :: array where
  "out_7 = IndexLambda (Subscript ''in'' [Variable ''_0'', Variable ''_1''])
             [(''in'', x_7_3)] (plain_meta [7, 3] ''float64'')"

definition call_4 :: call where
  "call_4 = Call (FunctionDefinition {''x''} ARRAY [(''out'', out_4)] {FunctionIdentifier ''f''})
              [(''x'', DataWrapper (Some ''a'') (plain_meta [4, 3] ''float64''))] {}"

definition call_7 :: call where
  "call_7 = Call (FunctionDefinition {''x''} ARRAY [(''out'', out_7)] {FunctionIdentifier ''f''})
              [(''x'', DataWrapper (Some ''b'') (plain_meta [7, 3] ''float64''))] {}"

definition call_11 :: call where
  "call_11 = Call (FunctionDefinition {''x''} ARRAY [(''out'', out_11)] {FunctionIdentifier ''f''})
               [] {}"

definition plan_axis_0 :: "call list \<times> array \<rightharpoonup> concatenatability" where
  "plan_axis_0 = [([], out_4) \<mapsto> ConcatableAlongAxis 0]"

lemma example_run:
  "\<exists>r. slice_new_call_outputs False [call_4, call_7] call_11 plan_axis_0 = Inr r"
  by (simp add: slice_new_call_outputs_def call_4_def call_7_def call_11_def plan_axis_0_def
      replace_output_def axis_len_def shape_of_def py_nth_def out_4_def out_7_def out_11_def
      plain_meta_def output_slicer_def slice_bounds_def get_slice_def ndim_def getitem_def
      with_tagged_axis_meta_def tagged_meta_def clamp_index_def Let_def)


lemma example_lengths:
  "the_shape (NamedCallResult call_4 ''out'') = [4, 3]"
  "the_shape (NamedCallResult call_7 ''out'') = [7, 3]"
  "ndim (NamedCallResult call_11 ''out'') = Inr 2"
  by (simp_all add: the_shape_def ndim_def shape_of_def call_4_def call_7_def call_11_def
      out_4_def out_7_def out_11_def plain_meta_def)

theorem output_slices_contiguous_witness:
  "\<exists>r m. slice_new_call_outputs False [call_4, call_7] call_11 plan_axis_0 = Inr r
     \<and> r (NamedCallResult call_7 ''out'')
         = Some (BasicIndex (NamedCallResult call_11 ''out'')
                   [Slice (Some 4) (Some 11) None, Slice None None None] m)"
proof -
  from example_run obtain r where
    r: "slice_new_call_outputs False [call_4, call_7] call_11 plan_axis_0 = Inr r" by blast
  have d: "distinct [call_4, call_7]"
    by (simp add: call_4_def call_7_def)
  have dn: "distinct (map fst (returns_of (function_of (hd [call_4, call_7]))))"
    by (simp add: call_4_def)
  have mem: "(''out'', out_4) \<in> set (returns_of (function_of (hd [call_4, call_7])))"
    by (simp add: call_4_def)
  have pl: "plan_axis_0 ([], out_4) = Some (ConcatableAlongAxis 0)"
    by (simp add: plan_axis_0_def)
  have i: "(1::nat) < length [call_4, call_7]" by simp
  from output_slices_contiguous[OF r d dn mem pl i] obtain n m where
    n: "ndim (NamedCallResult call_11 ''out'') = Inr n"
    and look: "r (NamedCallResult ([call_4, call_7] ! 1) ''out'')
               = Some (BasicIndex (NamedCallResult call_11 ''out'')
                         ((replicate n (Slice None None None))
                            [0 := Slice (Some (slice_start [call_4, call_7] ''out'' 0 1))
                                        (Some (slice_start [call_4, call_7] ''out'' 0 1
                                               + slice_len [call_4, call_7] ''out'' 0 1))
                                        None]) m)"
    by blast
  from n have n2: "n = 2" by (simp add: example_lengths)
  have st: "slice_start [call_4, call_7] ''out'' 0 1 = 4"
    by (simp add: slice_start_def example_lengths)
  have ln: "slice_len [call_4, call_7] ''out'' 0 1 = 7"
    by (simp add: slice_len_def example_lengths)
  have rp: "replicate 2 (Slice None None None) = [Slice None None None, Slice None None None]"
    by (simp add: numeral_2_eq_2)
  from look have "r (NamedCallResult call_7 ''out'')
         = Some (BasicIndex (NamedCallResult call_11 ''out'')
                   [Slice (Some 4) (Some 11) None, Slice None None None] m)"
    unfolding n2 st ln rp by simp
  with r show ?thesis by blast
qed


section \<open>Tags of the arrays the concatenation creates\<close>

text \<open>\<open>cs.bindings[param_name]\<close> and the tuple of it over all call sites.\<close>

definition lookup_binding :: "call \<Rightarrow> string \<Rightarrow> error + array" where
  "lookup_binding cs param_name =
     (case map_of (bindings_of cs) param_name of None \<Rightarrow> Inl KeyError | Some b \<Rightarrow> Inr b)"

fun param_bindings :: "call list \<Rightarrow> string \<Rightarrow> error + array list" where
  "param_bindings [] param_name = Inr []"
| "param_bindings (cs # call_sites) param_name =
     (case lookup_binding cs param_name of
        Inl e \<Rightarrow> Inl e
      | Inr b \<Rightarrow>
          (case param_bindings call_sites param_name of
             Inl e \<Rightarrow> Inl e
           | Inr bs \<Rightarrow> Inr (b # bs)))"

text \<open>
  The body of the loop of \<open>_get_replacement_map_post_concatenating\<close> that constructs the
  new bindings, from the concatenatability \<open>param_concat\<close> recorded for the parameter's
  placeholder.
\<close>

definition new_call_binding ::
    "(string list \<Rightarrow> string) \<Rightarrow> bool \<Rightarrow> call list \<Rightarrow> string \<Rightarrow> concatenatability \<Rightarrow> error + array" where
  "new_call_binding result_type inherit_axes call_sites param_name param_concat =
     (case param_concat of
        ConcatableAlongAxis axis \<Rightarrow>
          (case param_bindings call_sites param_name of
             Inl e \<Rightarrow> Inl e
           | Inr bs \<Rightarrow> input_concatenator result_type inherit_axes bs axis)
      | ConcatableIfConstant \<Rightarrow>
          (case call_sites of
             [] \<Rightarrow> Inl AssertionError
           | template_call_site # _ \<Rightarrow> lookup_binding template_call_site param_name))"







text \<open>A stand-in for the dtype promotion in the concrete run: the dtype of the first array.\<close>

definition first_dtype :: "string list \<Rightarrow> string" where
  "first_dtype ds = (case ds of [] \<Rightarrow> ''float64'' | d # _ \<Rightarrow> d)"



section \<open>Lowering: stores\<close>

text \<open>
  What code generation has produced for an array: a stored buffer, an inlined scalar
  expression, or a substitution rule; each with the number of indices it takes and the
  ids of the instructions a read depends on.
\<close>

datatype implemented_result =
    StoredResult string nat "string set"
  | InlinedResult sexpr nat "string set"
  | SubstitutionRuleResult string nat "string set"

text \<open>
  \<open>loopy_substitute\<close>: the identity substitution returns the expression as it is;
  otherwise the substitution mapper of the loop-nest library, the parameter
  \<open>substitution_mapper\<close>, is applied.
\<close>

definition loopy_substitute ::
    "((string \<times> sexpr) list \<Rightarrow> sexpr \<Rightarrow> sexpr) \<Rightarrow> sexpr \<Rightarrow> (string \<times> sexpr) list \<Rightarrow> sexpr" where
  "loopy_substitute substitution_mapper expression variable_assignments =
     (if list_all (\<lambda>(k, v). v = Variable k) variable_assignments then expression
      else substitution_mapper variable_assignments expression)"

text \<open>
  \<open>to_loopy_expression\<close> of the three results: the expression of a read at \<open>indices\<close>
  and the instruction ids added to the context's \<open>depends_on\<close>; the assertion on the
  number of indices is a branch.
\<close>

fun to_loopy_expression ::
    "((string \<times> sexpr) list \<Rightarrow> sexpr \<Rightarrow> sexpr) \<Rightarrow> implemented_result \<Rightarrow> sexpr list \<Rightarrow>
     error + sexpr \<times> string set" where
  "to_loopy_expression sm (StoredResult name num_indices depends_on) indices =
     (if length indices \<noteq> num_indices then Inl AssertionError
      else if indices = [] then Inr (Variable name, depends_on)
      else Inr (Subscript name indices, depends_on))"
| "to_loopy_expression sm (InlinedResult expr num_indices depends_on) indices =
     (if length indices \<noteq> num_indices then Inl AssertionError
      else Inr (loopy_substitute sm expr
                  (map (\<lambda>(d, i). (index_var_name d, i)) (enumerate 0 indices)),
                depends_on))"
| "to_loopy_expression sm (SubstitutionRuleResult subst_name num_args depends_on) indices =
     (if length indices \<noteq> num_args then Inl AssertionError
      else Inr (sexpr.Call subst_name indices, depends_on))"

text \<open>
  The kernel under construction, as far as lowering an array changes it: the arguments,
  the temporary variables, the iteration domains, the instructions, the substitution
  rules and the tags of the inames. A domain is kept as what \<open>domain_for_shape\<close> builds the polyhedral set from:
  the names of the set dimensions and the shape that bounds them.
\<close>

record kernel_arg =
  arg_name :: string
  arg_shape :: "int list"
  arg_dtype :: string
  arg_is_input :: bool
  arg_is_output :: bool
  arg_tags :: "tag set"

record temporary_variable =
  tv_name :: string
  tv_shape :: "int list"
  tv_dtype :: string
  tv_tags :: "tag set"

record instruction =
  insn_id :: string
  assignee :: sexpr
  expression :: sexpr
  within_inames :: "string set"
  depends_on :: "string set"

record domain =
  dim_names :: "string list"
  dim_bounds :: "int list"

record substitution_rule =
  rule_name :: string
  rule_arguments :: "string list"
  rule_expression :: sexpr

record kernel =
  args :: "kernel_arg list"
  temporary_variables :: "string \<rightharpoonup> temporary_variable"
  domains :: "domain list"
  instructions :: "instruction list"
  substitutions :: "string \<rightharpoonup> substitution_rule"
  iname_tags :: "(string \<times> tag) list"

text \<open>
  The code generation state: the kernel, the results recorded for the arrays lowered so
  far, and the names handed out so far by the two unique-name generators. A generator of the utility library is the parameter
  \<open>namegen\<close>: from the names in use and the requested name it gives the name to use,
  which is then in use as well.
\<close>

record codegen_state =
  state_kernel :: kernel
  results :: "array \<rightharpoonup> implemented_result"
  var_names :: "string list"
  insn_ids :: "string list"

definition var_name_gen ::
    "(string list \<Rightarrow> string \<Rightarrow> string) \<Rightarrow> string \<Rightarrow> codegen_state \<Rightarrow> string \<times> codegen_state" where
  "var_name_gen namegen based_on st =
     (let name = namegen (var_names st) based_on
      in (name, st\<lparr>var_names := var_names st @ [name]\<rparr>))"

definition insn_id_gen ::
    "(string list \<Rightarrow> string \<Rightarrow> string) \<Rightarrow> string \<Rightarrow> codegen_state \<Rightarrow> string \<times> codegen_state" where
  "insn_id_gen namegen based_on st =
     (let name = namegen (insn_ids st) based_on
      in (name, st\<lparr>insn_ids := insn_ids st @ [name]\<rparr>))"

text \<open>The inames \<open>f"{name}_dim{d}"\<close> for \<open>d\<close> in \<open>range(ndim)\<close>, generated in order.\<close>

fun gen_inames ::
    "(string list \<Rightarrow> string \<Rightarrow> string) \<Rightarrow> string \<Rightarrow> nat list \<Rightarrow> codegen_state \<Rightarrow>
     string list \<times> codegen_state" where
  "gen_inames namegen name [] st = ([], st)"
| "gen_inames namegen name (d # ds) st =
     (case var_name_gen namegen (name @ ''_dim'' @ str_nat d) st of
        (iname, st') \<Rightarrow>
          (case gen_inames namegen name ds st' of
             (inames, st'') \<Rightarrow> (iname # inames, st'')))"

text \<open>\<open>domain_for_shape\<close> without reductions, on integer shapes.\<close>

definition domain_for_shape :: "string list \<Rightarrow> int list \<Rightarrow> error + domain" where
  "domain_for_shape names shp =
     (if length names \<noteq> length shp then Inl AssertionError
      else Inr \<lparr>dim_names = names, dim_bounds = shp\<rparr>)"

text \<open>\<open>_filter_tags_not_of_type\<close>: \<open>ignore\<close> tells whether a tag is of one of the types.\<close>

definition filter_tags_not_of_type :: "tag set \<Rightarrow> (tag \<Rightarrow> bool) \<Rightarrow> tag set" where
  "filter_tags_not_of_type ts ignore = {t \<in> ts. \<not> ignore t}"

text \<open>
  The loop that tags the inames with the tags of their axes; \<open>zip(..., strict=True)\<close>
  raises when the lengths differ. The tags of one axis are taken in the order
  \<open>tag_order\<close> gives for the set.
\<close>

fun tag_axes_inames ::
    "(tag set \<Rightarrow> tag list) \<Rightarrow> (tag \<Rightarrow> bool) \<Rightarrow> tag set list \<Rightarrow> string list \<Rightarrow> kernel \<Rightarrow> error + kernel" where
  "tag_axes_inames tag_order ignore [] [] knl = Inr knl"
| "tag_axes_inames tag_order ignore (axis_tags # axs) (iname # inames) knl =
     tag_axes_inames tag_order ignore axs inames
       (knl\<lparr>iname_tags := iname_tags knl
              @ map (\<lambda>t. (iname, t)) (filter (\<lambda>t. \<not> ignore t) (tag_order axis_tags))\<rparr>)"
| "tag_axes_inames tag_order ignore axs inames knl = Inl ValueError"

text \<open>
  The kernel update of \<open>add_store\<close>: the output is declared as a temporary variable or as
  an output argument, and the additional domains and instructions are appended.
\<close>

definition updated_kernel ::
    "bool \<Rightarrow> string \<Rightarrow> meta \<Rightarrow> (tag \<Rightarrow> bool) \<Rightarrow> domain list \<Rightarrow> instruction list \<Rightarrow> kernel \<Rightarrow> kernel" where
  "updated_kernel output_to_temporary name m array_tag_t_to_not_propagate
       additional_domains additional_insns knl =
     (if output_to_temporary
      then knl\<lparr>temporary_variables :=
                 (temporary_variables knl)(name \<mapsto>
                   \<lparr>tv_name = name, tv_shape = shape m, tv_dtype = dtype m,
                    tv_tags = filter_tags_not_of_type (tags m) array_tag_t_to_not_propagate\<rparr>),
               domains := domains knl @ additional_domains,
               instructions := instructions knl @ additional_insns\<rparr>
      else knl\<lparr>args := args knl @
                 [\<lparr>arg_name = name, arg_shape = shape m, arg_dtype = dtype m,
                   arg_is_input = False, arg_is_output = True,
                   arg_tags = filter_tags_not_of_type (tags m) array_tag_t_to_not_propagate\<rparr>],
               domains := domains knl @ additional_domains,
               instructions := instructions knl @ additional_insns\<rparr>)"

text \<open>\<open>add_store\<close>.\<close>

definition add_store ::
    "(string list \<Rightarrow> string \<Rightarrow> string) \<Rightarrow> ((string \<times> sexpr) list \<Rightarrow> sexpr \<Rightarrow> sexpr) \<Rightarrow>
     (tag set \<Rightarrow> tag list) \<Rightarrow> (tag \<Rightarrow> bool) \<Rightarrow> (tag \<Rightarrow> bool) \<Rightarrow>
     string \<Rightarrow> array \<Rightarrow> implemented_result \<Rightarrow> codegen_state \<Rightarrow> bool \<Rightarrow>
     error + string \<times> codegen_state" where
  "add_store namegen sm tag_order array_tag_t_to_not_propagate axis_tag_t_to_not_propagate
       name expr result st output_to_temporary =
     (case meta_of expr of
        Inl e \<Rightarrow> Inl e
      | Inr m \<Rightarrow>
     (case gen_inames namegen name [0..<length (shape m)] st of
        (inames, st1) \<Rightarrow>
     (let indices = map Variable inames in
      case to_loopy_expression sm result indices of
        Inl e \<Rightarrow> Inl e
      | Inr (loopy_expr, deps) \<Rightarrow>
     (let lhs = (if indices \<noteq> [] then Subscript name indices else Variable name) in
      case insn_id_gen namegen (name @ ''_store'') st1 of
        (iid, st2) \<Rightarrow>
     (let insn = \<lparr>insn_id = iid, assignee = lhs, expression = loopy_expr,
                  within_inames = set inames, depends_on = deps\<rparr>
      in case domain_for_shape inames (shape m) of
        Inl e \<Rightarrow> Inl e
      | Inr dmn \<Rightarrow>
     (let result_is_empty = list_ex (\<lambda>s_i. are_shape_components_equal s_i 0) (shape m);
          additional_domains = (if result_is_empty then [] else [dmn]);
          additional_insns = (if result_is_empty then [] else [insn]);
          knl = updated_kernel output_to_temporary name m array_tag_t_to_not_propagate
                  additional_domains additional_insns (state_kernel st2)
      in case (if \<not> result_is_empty
               then tag_axes_inames tag_order axis_tag_t_to_not_propagate (axes m) inames knl
               else Inr knl) of
           Inl e \<Rightarrow> Inl e
         | Inr knl' \<Rightarrow> Inr (iid, st2\<lparr>state_kernel := knl'\<rparr>)))))))"

text \<open>The number of indices a result takes.\<close>

fun num_indices :: "implemented_result \<Rightarrow> nat" where
  "num_indices (StoredResult name n deps) = n"
| "num_indices (InlinedResult expr n deps) = n"
| "num_indices (SubstitutionRuleResult subst_name n deps) = n"

lemma gen_inames_kernel:
  "gen_inames ng name ds st = (inames, st') \<Longrightarrow>
     state_kernel st' = state_kernel st \<and> length inames = length ds"
proof (induction ds arbitrary: st inames st')
  case Nil
  then show ?case by simp
next
  case (Cons d ds)
  obtain iname st1 where 1: "var_name_gen ng (name @ ''_dim'' @ str_nat d) st = (iname, st1)"
    by (cases "var_name_gen ng (name @ ''_dim'' @ str_nat d) st")
  obtain rest st2 where 2: "gen_inames ng name ds st1 = (rest, st2)"
    by (cases "gen_inames ng name ds st1")
  from 1 have k1: "state_kernel st1 = state_kernel st"
    by (auto simp: var_name_gen_def Let_def)
  from Cons.prems 1 2 have "inames = iname # rest" "st' = st2" by simp_all
  with Cons.IH[OF 2] k1 show ?case by simp
qed

lemma insn_id_gen_kernel:
  "insn_id_gen ng based_on st = (iid, st') \<Longrightarrow> state_kernel st' = state_kernel st"
  by (auto simp: insn_id_gen_def Let_def)

lemma tag_axes_inames_frame:
  "tag_axes_inames ord ig axs inames knl = Inr knl' \<Longrightarrow>
     args knl' = args knl \<and> temporary_variables knl' = temporary_variables knl
     \<and> domains knl' = domains knl \<and> instructions knl' = instructions knl"
  by (induction ord ig axs inames knl rule: tag_axes_inames.induct) auto

lemma tag_axes_inames_total:
  "length axs = length inames \<Longrightarrow> \<exists>knl'. tag_axes_inames ord ig axs inames knl = Inr knl'"
  by (induction ord ig axs inames knl rule: tag_axes_inames.induct) auto

lemma to_loopy_expression_total:
  "length indices = num_indices result \<Longrightarrow> \<exists>r. to_loopy_expression sm result indices = Inr r"
  by (cases result) auto

lemma result_is_empty_iff:
  "list_ex (\<lambda>s_i. are_shape_components_equal s_i 0) shp \<longleftrightarrow> 0 \<in> set shp"
  by (auto simp: list_ex_iff are_shape_components_equal_def)

lemma add_store_unfold:
  assumes m: "meta_of expr = Inr m"
    and r: "add_store ng sm ord ig_a ig_x name expr result st temp = Inr (iid, st')"
  shows "\<exists>inames st2 insn knl2.
      length inames = length (shape m) \<and> state_kernel st2 = state_kernel st
      \<and> insn_id insn = iid \<and> st' = st2\<lparr>state_kernel := knl2\<rparr>
      \<and> args knl2 = args (updated_kernel temp name m ig_a [] [] (state_kernel st))
      \<and> temporary_variables knl2
          = temporary_variables (updated_kernel temp name m ig_a [] [] (state_kernel st))
      \<and> domains knl2 = domains (state_kernel st)
            @ (if 0 \<in> set (shape m) then [] else [\<lparr>dim_names = inames, dim_bounds = shape m\<rparr>])
      \<and> instructions knl2 = instructions (state_kernel st)
            @ (if 0 \<in> set (shape m) then [] else [insn])"
proof -
  obtain inames st1 where g: "gen_inames ng name [0..<length (shape m)] st = (inames, st1)"
    by (cases "gen_inames ng name [0..<length (shape m)] st")
  from gen_inames_kernel[OF g] have k1: "state_kernel st1 = state_kernel st"
    and li: "length inames = length (shape m)" by simp_all
  from r m g obtain loopy_expr deps where
    t: "to_loopy_expression sm result (map Variable inames) = Inr (loopy_expr, deps)"
    by (auto simp: add_store_def Let_def split: sum.splits prod.splits)
  obtain iid' st2 where i: "insn_id_gen ng (name @ ''_store'') st1 = (iid', st2)"
    by (cases "insn_id_gen ng (name @ ''_store'') st1")
  from insn_id_gen_kernel[OF i] k1 have k2: "state_kernel st2 = state_kernel st" by simp
  have d: "domain_for_shape inames (shape m) = Inr \<lparr>dim_names = inames, dim_bounds = shape m\<rparr>"
    using li by (simp add: domain_for_shape_def)
  define insn where "insn = \<lparr>insn_id = iid',
                assignee = (if map Variable inames \<noteq> [] then Subscript name (map Variable inames)
                            else Variable name),
                expression = loopy_expr, within_inames = set inames, depends_on = deps\<rparr>"
  define knl1 where "knl1 = updated_kernel temp name m ig_a
      (if 0 \<in> set (shape m) then [] else [\<lparr>dim_names = inames, dim_bounds = shape m\<rparr>])
      (if 0 \<in> set (shape m) then [] else [insn]) (state_kernel st)"
  from r have r': "(case (if 0 \<notin> set (shape m)
               then tag_axes_inames ord ig_x (axes m) inames knl1
               else Inr knl1) of
           Inl e \<Rightarrow> Inl e
         | Inr knl2 \<Rightarrow> Inr (iid', st2\<lparr>state_kernel := knl2\<rparr>)) = Inr (iid, st')"
    unfolding add_store_def m sum.case g prod.case Let_def t i d result_is_empty_iff
      knl1_def insn_def k2 .
  then obtain knl2 where fin: "(if 0 \<notin> set (shape m)
               then tag_axes_inames ord ig_x (axes m) inames knl1
               else Inr knl1) = Inr knl2" and eq: "iid = iid'" "st' = st2\<lparr>state_kernel := knl2\<rparr>"
    by (auto split: sum.splits)
  have fr: "args knl2 = args knl1 \<and> temporary_variables knl2 = temporary_variables knl1
     \<and> domains knl2 = domains knl1 \<and> instructions knl2 = instructions knl1"
  proof (cases "0 \<in> set (shape m)")
    case True
    with fin show ?thesis by simp
  next
    case False
    with fin have "tag_axes_inames ord ig_x (axes m) inames knl1 = Inr knl2" by simp
    from tag_axes_inames_frame[OF this] show ?thesis .
  qed
  have k: "args knl1 = args (updated_kernel temp name m ig_a [] [] (state_kernel st))"
    "temporary_variables knl1
          = temporary_variables (updated_kernel temp name m ig_a [] [] (state_kernel st))"
    "domains knl1 = domains (state_kernel st)
            @ (if 0 \<in> set (shape m) then [] else [\<lparr>dim_names = inames, dim_bounds = shape m\<rparr>])"
    "instructions knl1 = instructions (state_kernel st)
            @ (if 0 \<in> set (shape m) then [] else [insn])"
    unfolding knl1_def by (simp_all add: updated_kernel_def)
  have "insn_id insn = iid" using eq by (simp add: insn_def)
  with li k2 eq fr k show ?thesis by metis
qed


lemma add_store_total:
  assumes m: "meta_of expr = Inr m" and ax: "length (axes m) = length (shape m)"
    and ni: "num_indices result = length (shape m)"
  shows "\<exists>iid st'. add_store ng sm ord ig_a ig_x name expr result st temp = Inr (iid, st')"
proof -
  obtain inames st1 where g: "gen_inames ng name [0..<length (shape m)] st = (inames, st1)"
    by (cases "gen_inames ng name [0..<length (shape m)] st")
  from gen_inames_kernel[OF g] have li: "length inames = length (shape m)" by simp
  from to_loopy_expression_total[of "map Variable inames" result sm] ni li
  obtain loopy_expr deps where
    t: "to_loopy_expression sm result (map Variable inames) = Inr (loopy_expr, deps)"
    by auto
  obtain iid' st2 where i: "insn_id_gen ng (name @ ''_store'') st1 = (iid', st2)"
    by (cases "insn_id_gen ng (name @ ''_store'') st1")
  have d: "domain_for_shape inames (shape m) = Inr \<lparr>dim_names = inames, dim_bounds = shape m\<rparr>"
    using li by (simp add: domain_for_shape_def)
  define knl1 where "knl1 = updated_kernel temp name m ig_a
      (if 0 \<in> set (shape m) then [] else [\<lparr>dim_names = inames, dim_bounds = shape m\<rparr>])
      (if 0 \<in> set (shape m) then []
       else [\<lparr>insn_id = iid',
               assignee = (if map Variable inames \<noteq> [] then Subscript name (map Variable inames)
                           else Variable name),
               expression = loopy_expr, within_inames = set inames, depends_on = deps\<rparr>])
      (state_kernel st2)"
  have eq: "add_store ng sm ord ig_a ig_x name expr result st temp =
      (case (if 0 \<notin> set (shape m)
               then tag_axes_inames ord ig_x (axes m) inames knl1
               else Inr knl1) of
           Inl e \<Rightarrow> Inl e
         | Inr knl2 \<Rightarrow> Inr (iid', st2\<lparr>state_kernel := knl2\<rparr>))"
    unfolding add_store_def m sum.case g prod.case Let_def t i d result_is_empty_iff knl1_def ..
  from tag_axes_inames_total[of "axes m" inames ord ig_x knl1] ax li
  obtain knl' where "tag_axes_inames ord ig_x (axes m) inames knl1 = Inr knl'" by auto
  then show ?thesis unfolding eq by (cases "0 \<in> set (shape m)") simp_all
qed

text \<open>
  Claim C6. When \<open>add_store\<close> returns for an array one of whose shape components is
  zero, the kernel has the domains and the instructions it had before; otherwise exactly
  one domain and one instruction, the store with the returned id, are appended. In both
  cases the output is declared: as a temporary variable under its name, or as an output
  argument appended to the arguments. \<open>add_store\<close> returns whenever the array has one
  axis descriptor per dimension and the result takes one index per dimension.
\<close>

theorem add_store_empty_arrays:
  "(meta_of expr = Inr m
      \<and> add_store ng sm ord ig_a ig_x name expr result st temp = Inr (iid, st') \<longrightarrow>
      (if 0 \<in> set (shape m)
       then domains (state_kernel st') = domains (state_kernel st)
            \<and> instructions (state_kernel st') = instructions (state_kernel st)
       else (\<exists>d i. domains (state_kernel st') = domains (state_kernel st) @ [d]
               \<and> instructions (state_kernel st') = instructions (state_kernel st) @ [i]
               \<and> insn_id i = iid))
      \<and> (if temp
          then args (state_kernel st') = args (state_kernel st)
               \<and> (\<exists>tv. temporary_variables (state_kernel st')
                          = (temporary_variables (state_kernel st))(name \<mapsto> tv))
          else temporary_variables (state_kernel st') = temporary_variables (state_kernel st)
               \<and> (\<exists>a. args (state_kernel st') = args (state_kernel st) @ [a]
                        \<and> arg_name a = name \<and> arg_is_output a)))
   \<and> (meta_of expr = Inr m \<and> length (axes m) = length (shape m)
        \<and> num_indices result = length (shape m) \<longrightarrow>
      (\<exists>iid st'. add_store ng sm ord ig_a ig_x name expr result st temp = Inr (iid, st')))"
proof (intro conjI impI)
  assume h: "meta_of expr = Inr m
      \<and> add_store ng sm ord ig_a ig_x name expr result st temp = Inr (iid, st')"
  then have m: "meta_of expr = Inr m"
    and r: "add_store ng sm ord ig_a ig_x name expr result st temp = Inr (iid, st')" by simp_all
  from add_store_unfold[OF m r] obtain inames st2 insn knl2 where
    u: "insn_id insn = iid" "st' = st2\<lparr>state_kernel := knl2\<rparr>"
      "args knl2 = args (updated_kernel temp name m ig_a [] [] (state_kernel st))"
      "temporary_variables knl2
          = temporary_variables (updated_kernel temp name m ig_a [] [] (state_kernel st))"
      "domains knl2 = domains (state_kernel st)
            @ (if 0 \<in> set (shape m) then [] else [\<lparr>dim_names = inames, dim_bounds = shape m\<rparr>])"
      "instructions knl2 = instructions (state_kernel st)
            @ (if 0 \<in> set (shape m) then [] else [insn])"
    by blast
  have k: "state_kernel st' = knl2" using u(2) by simp
  show "if 0 \<in> set (shape m)
       then domains (state_kernel st') = domains (state_kernel st)
            \<and> instructions (state_kernel st') = instructions (state_kernel st)
       else (\<exists>d i. domains (state_kernel st') = domains (state_kernel st) @ [d]
               \<and> instructions (state_kernel st') = instructions (state_kernel st) @ [i]
               \<and> insn_id i = iid)"
    unfolding k using u(1,5,6) by auto
  show "if temp
          then args (state_kernel st') = args (state_kernel st)
               \<and> (\<exists>tv. temporary_variables (state_kernel st')
                          = (temporary_variables (state_kernel st))(name \<mapsto> tv))
          else temporary_variables (state_kernel st') = temporary_variables (state_kernel st)
               \<and> (\<exists>a. args (state_kernel st') = args (state_kernel st) @ [a]
                        \<and> arg_name a = name \<and> arg_is_output a)"
    unfolding k u(3,4) by (auto simp: updated_kernel_def)
next
  assume "meta_of expr = Inr m \<and> length (axes m) = length (shape m)
        \<and> num_indices result = length (shape m)"
  then show "\<exists>iid st'. add_store ng sm ord ig_a ig_x name expr result st temp = Inr (iid, st')"
    using add_store_total by blast
qed

text \<open>
  A concrete run: the empty kernel, an output of shape 0 x 3 and one of shape 4 x 3, each
  an inlined constant; the name generator gives the requested name and the substitution
  mapper is never needed.
\<close>

definition empty_state :: codegen_state where
  "empty_state = \<lparr>state_kernel = \<lparr>args = [], temporary_variables = Map.empty, domains = [],
                                   instructions = [], substitutions = Map.empty,
                                   iname_tags = []\<rparr>,
                   results = Map.empty, var_names = [], insn_ids = []\<rparr>"

definition zero_rows :: array where
  "zero_rows = IndexLambda (Constant 0) [] (plain_meta [0, 3] ''float64'')"

definition four_rows :: array where
  "four_rows = IndexLambda (Constant 0) [] (plain_meta [4, 3] ''float64'')"

definition run_store :: "array \<Rightarrow> error + string \<times> codegen_state" where
  "run_store expr =
     add_store (\<lambda>used based_on. based_on) (\<lambda>assignments e. e) (\<lambda>ts. [])
       (\<lambda>t. False) (\<lambda>t. False) ''out'' expr (InlinedResult (Constant 0) 2 {}) empty_state False"

theorem add_store_empty_arrays_witness:
  "(\<exists>iid st'. run_store zero_rows = Inr (iid, st')
       \<and> domains (state_kernel st') = [] \<and> instructions (state_kernel st') = []
       \<and> (\<exists>a. args (state_kernel st') = [a] \<and> arg_name a = ''out''))
   \<and> (\<exists>iid st' d i. run_store four_rows = Inr (iid, st')
       \<and> domains (state_kernel st') = [d] \<and> instructions (state_kernel st') = [i]
       \<and> insn_id i = iid)"
proof -
  let ?ng = "\<lambda>(used :: string list) (based_on :: string). based_on"
  let ?sm = "\<lambda>(assignments :: (string \<times> sexpr) list) (e :: sexpr). e"
  let ?ord = "\<lambda>ts :: tag set. [] :: tag list"
  let ?ig = "\<lambda>t :: tag. False"
  let ?res = "InlinedResult (Constant 0) 2 {}"
  have mz: "meta_of zero_rows = Inr (plain_meta [0, 3] ''float64'')"
    by (simp add: zero_rows_def)
  have mf: "meta_of four_rows = Inr (plain_meta [4, 3] ''float64'')"
    by (simp add: four_rows_def)
  have "\<exists>iid st'. run_store zero_rows = Inr (iid, st')"
    unfolding run_store_def
    using add_store_empty_arrays[THEN conjunct2, of zero_rows "plain_meta [0, 3] ''float64''"
        ?res ?ng ?sm ?ord ?ig ?ig "''out''" empty_state False] mz
    by (simp add: plain_meta_def)
  then obtain iid st' where rz: "run_store zero_rows = Inr (iid, st')" by blast
  from add_store_empty_arrays[THEN conjunct1, of zero_rows "plain_meta [0, 3] ''float64''"
        ?ng ?sm ?ord ?ig ?ig "''out''" ?res empty_state False iid st'] mz rz
  have "domains (state_kernel st') = [] \<and> instructions (state_kernel st') = []
       \<and> (\<exists>a. args (state_kernel st') = [a] \<and> arg_name a = ''out'')"
    unfolding run_store_def by (simp add: plain_meta_def empty_state_def) blast
  with rz have z: "\<exists>iid st'. run_store zero_rows = Inr (iid, st')
       \<and> domains (state_kernel st') = [] \<and> instructions (state_kernel st') = []
       \<and> (\<exists>a. args (state_kernel st') = [a] \<and> arg_name a = ''out'')" by blast
  have "\<exists>iid st'. run_store four_rows = Inr (iid, st')"
    unfolding run_store_def
    using add_store_empty_arrays[THEN conjunct2, of four_rows "plain_meta [4, 3] ''float64''"
        ?res ?ng ?sm ?ord ?ig ?ig "''out''" empty_state False] mf
    by (simp add: plain_meta_def)
  then obtain iid2 st2 where rf: "run_store four_rows = Inr (iid2, st2)" by blast
  from add_store_empty_arrays[THEN conjunct1, of four_rows "plain_meta [4, 3] ''float64''"
        ?ng ?sm ?ord ?ig ?ig "''out''" ?res empty_state False iid2 st2] mf rf
  have "\<exists>d i. domains (state_kernel st2) = [d] \<and> instructions (state_kernel st2) = [i]
       \<and> insn_id i = iid2"
    unfolding run_store_def by (simp add: plain_meta_def empty_state_def)
  with rf have f: "\<exists>iid st' d i. run_store four_rows = Inr (iid, st')
       \<and> domains (state_kernel st') = [d] \<and> instructions (state_kernel st') = [i]
       \<and> insn_id i = iid" by blast
  from z f show ?thesis by blast
qed

section \<open>Lowering: errors\<close>












text \<open>
  What \<open>generate_loopy\<close> is given: one array, a Python dictionary of arrays, a
  \<open>DictOfNamedArrays\<close>, or another result with named arrays such as a call.
\<close>

datatype computation =
    ArrayResult array
  | DictResult "(string \<times> array) list"
  | DictOfNamedArraysResult "(string \<times> array) list" "tag set"
  | OtherNamedArrays call






















section \<open>Equality and hashing of array objects\<close>

text \<open>
  \<open>src/pytato/array.py\<close>: class \<open>Array\<close> sets the instance attributes \<open>namespace\<close>, \<open>tags\<close> and
  \<open>dtype\<close> in \<open>__init__\<close> and defines neither \<open>__eq__\<close> nor \<open>__hash__\<close>; nor does any of its
  subclasses. The classes \<open>Einsum\<close> and \<open>Reshape\<close> add nothing to \<open>Array\<close>. So the comparison
  and the hash of an array object are those of Python's \<open>object\<close>: two references are
  equal when they are the same object, and the hash is a function of the object's
  identity. An object is an address in a store of instance attributes.
\<close>

type_synonym ref = nat

datatype array_class = ArrayClass | EinsumClass | ReshapeClass

record array_attributes =
  obj_class :: array_class
  obj_namespace :: ref
  obj_tags :: "tag set"
  obj_dtype :: string

record object_store =
  objects :: "ref \<rightharpoonup> array_attributes"
  next_ref :: ref


text \<open>
  \<open>Array.__init__(self, namespace, tags=None)\<close>, called through the class \<open>c\<close>: missing
  tags are the empty set, the dtype is \<open>float64\<close>. The new object gets a fresh address.
\<close>

definition array_init ::
    "array_class \<Rightarrow> ref \<Rightarrow> tag set option \<Rightarrow> object_store \<Rightarrow> ref \<times> object_store" where
  "array_init c namespace tags_opt s =
     (let ts = (case tags_opt of None \<Rightarrow> {} | Some ts \<Rightarrow> ts);
          self = next_ref s
      in (self,
          s\<lparr>objects := (objects s)(self \<mapsto>
                \<lparr>obj_class = c, obj_namespace = namespace, obj_tags = ts,
                 obj_dtype = ''float64''\<rparr>),
            next_ref := Suc self\<rparr>))"

text \<open>\<open>a == b\<close> and \<open>hash(a)\<close> as \<open>object\<close> defines them; \<open>id_hash\<close> is the interpreter's hash of
  an identity.\<close>

definition array_eq :: "ref \<Rightarrow> ref \<Rightarrow> bool" where
  "array_eq a b = (a = b)"

definition array_hash :: "(ref \<Rightarrow> int) \<Rightarrow> ref \<Rightarrow> int" where
  "array_hash id_hash a = id_hash a"



lemma array_eq_implies_equal_hash:
  "array_eq a b \<Longrightarrow> array_hash id_hash a = array_hash id_hash b"
  by (simp add: array_eq_def)

lemma array_eq_refl: "array_eq a a"
  by (simp add: array_eq_def)

lemma array_init_fresh:
  "fst (array_init c ns ts s) = next_ref s"
  by (simp add: array_init_def Let_def)


section \<open>The order of the call sites in a batch\<close>

text \<open>
  \<open>CallSiteLocation\<close>: a call and the stack of calls within which it is called.
\<close>

record call_site_location =
  site_call :: call
  site_stack :: "call list"

text \<open>
  \<open>concatenate_calls\<close> keeps the call sites in sets and frozensets and reads them with
  \<open>iter\<close>, \<open>next(iter(...))\<close> and \<open>sorted\<close>. The order in which a set is iterated is not
  fixed by the program (it follows the hashes of its elements), so it is a parameter: a
  function from a set to the list of its elements in iteration order.
\<close>

type_synonym set_iteration = "call_site_location set \<Rightarrow> call_site_location list"

definition enumerates :: "set_iteration \<Rightarrow> call_site_location set \<Rightarrow> bool" where
  "enumerates iter S = (set (iter S) = S \<and> distinct (iter S))"

text \<open>
  \<open>get_axis0_len\<close>: the length of axis 0 of the first return; all returns must have the
  same length there. \<open>cs.call[name]\<close> is the named call result.
\<close>

definition get_axis0_len :: "call_site_location \<Rightarrow> error + int" where
  "get_axis0_len cs =
     (case returns_of (function_of (site_call cs)) of
        [] \<Rightarrow> Inl StopIteration
      | (first_out_name, first_out) # others \<Rightarrow>
          (case axis_len (NamedCallResult (site_call cs) first_out_name) 0 of
             Inl e \<Rightarrow> Inl e
           | Inr axis0_len \<Rightarrow>
               (case all_m (\<lambda>name. case axis_len (NamedCallResult (site_call cs) name) 0 of
                                      Inl e \<Rightarrow> Inl e
                                    | Inr l \<Rightarrow> Inr (l = axis0_len))
                       (map fst (returns_of (function_of (site_call cs)))) of
                  Inl e \<Rightarrow> Inl e
                | Inr ok \<Rightarrow> (if ok then Inr axis0_len else Inl AssertionError))))"

text \<open>
  The condition of the comprehension that builds \<open>similar_call_sites\<close>: the same return
  names as the template, every return similar to the template's, and the same stack.
  The comparison of two arrays (\<open>SimilarityComparer\<close>) is a parameter.
\<close>

definition is_similar ::
    "(array \<Rightarrow> array \<Rightarrow> bool) \<Rightarrow> call_site_location \<Rightarrow> call_site_location \<Rightarrow> bool" where
  "is_similar similarity_comparer template_call_site cs =
     (let template_returns = returns_of (function_of (site_call template_call_site));
          cs_returns = returns_of (function_of (site_call cs))
      in set (map fst cs_returns) = set (map fst template_returns)
         \<and> list_all (\<lambda>name. case (map_of cs_returns name, map_of template_returns name) of
                               (Some r, Some t) \<Rightarrow> similarity_comparer r t
                             | _ \<Rightarrow> False)
               (map fst template_returns)
         \<and> site_stack cs = site_stack template_call_site)"

text \<open>
  \<open>sorted(similar_call_sites, key=get_axis0_len)\<close>: the keys are computed in iteration
  order, an exception of the key function propagates, and the sort is stable.
\<close>

fun keyed :: "call_site_location list \<Rightarrow> error + (int \<times> call_site_location) list" where
  "keyed [] = Inr []"
| "keyed (cs # rest) =
     (case get_axis0_len cs of
        Inl e \<Rightarrow> Inl e
      | Inr k \<Rightarrow> (case keyed rest of Inl e \<Rightarrow> Inl e | Inr ks \<Rightarrow> Inr ((k, cs) # ks)))"

definition sorted_by_axis0_len :: "call_site_location list \<Rightarrow> error + call_site_location list" where
  "sorted_by_axis0_len sites =
     (case keyed sites of Inl e \<Rightarrow> Inl e | Inr ks \<Rightarrow> Inr (map snd (sort_key fst ks)))"

text \<open>
  One turn of the loop \<open>while unbatched_call_sites\<close> of \<open>concatenate_calls\<close>: the ready call
  sites are those none of whose dependencies is unbatched, the template is the first
  ready call site in iteration order, and the batch is the similar call sites sorted by
  \<open>get_axis0_len\<close>.
\<close>

definition ready_call_sites ::
    "(call_site_location \<rightharpoonup> call_site_location set) \<Rightarrow> call_site_location set \<Rightarrow>
     call_site_location set" where
  "ready_call_sites call_site_to_dep_call_sites unbatched_call_sites =
     Set.filter (\<lambda>cs. the (call_site_to_dep_call_sites cs) \<inter> unbatched_call_sites = {})
       unbatched_call_sites"

definition similar_call_sites ::
    "(array \<Rightarrow> array \<Rightarrow> bool) \<Rightarrow> call_site_location \<Rightarrow> call_site_location set \<Rightarrow>
     call_site_location set" where
  "similar_call_sites similarity_comparer template_call_site ready =
     Set.filter (is_similar similarity_comparer template_call_site) ready"

definition batch_call_sites ::
    "set_iteration \<Rightarrow> (array \<Rightarrow> array \<Rightarrow> bool) \<Rightarrow>
     (call_site_location \<rightharpoonup> call_site_location set) \<Rightarrow> call_site_location set \<Rightarrow>
     error + call_site_location list" where
  "batch_call_sites iter similarity_comparer call_site_to_dep_call_sites unbatched_call_sites =
     (if \<not> unbatched_call_sites \<subseteq> dom call_site_to_dep_call_sites then Inl KeyError
      else
        let ready = ready_call_sites call_site_to_dep_call_sites unbatched_call_sites
        in if ready = {} then Inl ValueError
           else (case iter ready of
                   [] \<Rightarrow> Inl StopIteration
                 | template_call_site # others \<Rightarrow>
                     let similar = similar_call_sites similarity_comparer template_call_site ready
                     in if similar = {} then Inl ValueError
                        else sorted_by_axis0_len (iter similar)))"

text \<open>
  The loop itself: each batch is appended and its call sites are removed from the
  unbatched ones. The fuel bounds the number of turns; \<open>None\<close> is running out of it.
\<close>

fun call_site_batches ::
    "nat \<Rightarrow> set_iteration \<Rightarrow> (array \<Rightarrow> array \<Rightarrow> bool) \<Rightarrow>
     (call_site_location \<rightharpoonup> call_site_location set) \<Rightarrow> call_site_location set \<Rightarrow>
     (error + call_site_location list list) option" where
  "call_site_batches 0 iter sc deps unbatched =
     (if unbatched = {} then Some (Inr []) else None)"
| "call_site_batches (Suc n) iter sc deps unbatched =
     (if unbatched = {} then Some (Inr [])
      else (case batch_call_sites iter sc deps unbatched of
              Inl e \<Rightarrow> Some (Inl e)
            | Inr batch \<Rightarrow>
                (case call_site_batches n iter sc deps (unbatched - set batch) of
                   None \<Rightarrow> None
                 | Some (Inl e) \<Rightarrow> Some (Inl e)
                 | Some (Inr batches) \<Rightarrow> Some (Inr (batch # batches)))))"

text \<open>
  Two call sites of the same function whose return has 4 rows, bound to the data
  \<open>a\<close> and \<open>b\<close>, and the two orders in which a set of them can be iterated.
\<close>

definition call_4_b :: call where
  "call_4_b = Call (FunctionDefinition {''x''} ARRAY [(''out'', out_4)] {FunctionIdentifier ''f''})
              [(''x'', DataWrapper (Some ''b'') (plain_meta [4, 3] ''float64''))] {}"

definition site_a :: call_site_location where
  "site_a = \<lparr>site_call = call_4, site_stack = []\<rparr>"

definition site_b :: call_site_location where
  "site_b = \<lparr>site_call = call_4_b, site_stack = []\<rparr>"

definition in_order :: "call_site_location list \<Rightarrow> set_iteration" where
  "in_order slots S = filter (\<lambda>cs. cs \<in> S) slots"

definition no_deps :: "call_site_location \<rightharpoonup> call_site_location set" where
  "no_deps = [site_a \<mapsto> {}, site_b \<mapsto> {}]"

lemma site_a_neq_b: "site_a \<noteq> site_b"
  by (simp add: site_a_def site_b_def call_4_def call_4_b_def)

lemma axis0_a: "get_axis0_len site_a = Inr 4"
  by (simp add: get_axis0_len_def site_a_def call_4_def out_4_def axis_len_def shape_of_def
      py_nth_def plain_meta_def)

lemma axis0_b: "get_axis0_len site_b = Inr 4"
  by (simp add: get_axis0_len_def site_b_def call_4_b_def out_4_def axis_len_def shape_of_def
      py_nth_def plain_meta_def)

lemma similar_ab: "is_similar (=) x y" if "x \<in> {site_a, site_b}" "y \<in> {site_a, site_b}"
  using that by (auto simp: is_similar_def site_a_def site_b_def call_4_def call_4_b_def)

lemma batch_ab:
  "batch_call_sites (in_order [site_a, site_b]) (=) no_deps {site_a, site_b} = Inr [site_a, site_b]"
  using site_a_neq_b
  by (auto simp: batch_call_sites_def ready_call_sites_def similar_call_sites_def no_deps_def
      in_order_def Let_def similar_ab sorted_by_axis0_len_def axis0_a axis0_b)


lemma batch_ba:
  "batch_call_sites (in_order [site_b, site_a]) (=) no_deps {site_a, site_b} = Inr [site_b, site_a]"
  using site_a_neq_b
  by (auto simp: batch_call_sites_def ready_call_sites_def similar_call_sites_def no_deps_def
      in_order_def Let_def similar_ab sorted_by_axis0_len_def axis0_a axis0_b)

lemma in_order_enumerates:
  "distinct slots \<Longrightarrow> S \<subseteq> set slots \<Longrightarrow> enumerates (in_order slots) S"
  by (auto simp: enumerates_def in_order_def)

text \<open>The key of a call site whose axis-0 length can be read.\<close>

definition axis0_key :: "call_site_location \<Rightarrow> int" where
  "axis0_key cs = (case get_axis0_len cs of Inl e \<Rightarrow> 0 | Inr k \<Rightarrow> k)"

lemma keyed_Inr:
  "keyed sites = Inr ks \<Longrightarrow> ks = map (\<lambda>cs. (axis0_key cs, cs)) sites
     \<and> (\<forall>cs \<in> set sites. get_axis0_len cs = Inr (axis0_key cs))"
proof (induction sites arbitrary: ks)
  case Nil
  then show ?case by simp
next
  case (Cons cs rest)
  from Cons.prems obtain k ks' where k: "get_axis0_len cs = Inr k" and r: "keyed rest = Inr ks'"
    and ks: "ks = (k, cs) # ks'"
    by (auto split: sum.splits)
  from Cons.IH[OF r] k ks show ?case by (simp add: axis0_key_def)
qed

lemma sort_key_decorated_aux:
  "\<exists>zs. sort_key fst (map (\<lambda>y. (f y, y)) xs) = map (\<lambda>y. (f y, y)) zs \<and> zs = sort_key f xs"
proof (induction xs)
  case Nil
  then show ?case by simp
next
  case (Cons x xs)
  then obtain zs where zs: "sort_key fst (map (\<lambda>y. (f y, y)) xs) = map (\<lambda>y. (f y, y)) zs"
    "zs = sort_key f xs" by blast
  have "insort_key fst (f x, x) (map (\<lambda>y. (f y, y)) zs) = map (\<lambda>y. (f y, y)) (insort_key f x zs)"
    by (induction zs) simp_all
  with zs show ?case by simp
qed

lemma sort_key_decorated:
  "map snd (sort_key fst (map (\<lambda>y. (f y, y)) xs)) = sort_key f xs"
proof -
  from sort_key_decorated_aux[of f xs]
  have "sort_key fst (map (\<lambda>y. (f y, y)) xs) = map (\<lambda>y. (f y, y)) (sort_key f xs)" by blast
  then show ?thesis by (simp add: comp_def)
qed

lemma sorted_by_axis0_len_Inr:
  assumes "sorted_by_axis0_len sites = Inr batch"
  shows "batch = sort_key axis0_key sites"
    and "\<forall>cs \<in> set sites. get_axis0_len cs = Inr (axis0_key cs)"
proof -
  from assms obtain ks where ks: "keyed sites = Inr ks" and b: "batch = map snd (sort_key fst ks)"
    by (auto simp: sorted_by_axis0_len_def split: sum.splits)
  from keyed_Inr[OF ks] b show "batch = sort_key axis0_key sites"
    by (simp add: sort_key_decorated)
  from keyed_Inr[OF ks] show "\<forall>cs \<in> set sites. get_axis0_len cs = Inr (axis0_key cs)" by blast
qed

lemma batch_call_sites_Inr:
  assumes "batch_call_sites iter sc deps unbatched = Inr batch"
  shows "\<exists>template others.
           iter (ready_call_sites deps unbatched) = template # others
           \<and> similar_call_sites sc template (ready_call_sites deps unbatched) \<noteq> {}
           \<and> batch = sort_key axis0_key
                 (iter (similar_call_sites sc template (ready_call_sites deps unbatched)))
           \<and> (\<forall>cs \<in> set batch. get_axis0_len cs = Inr (axis0_key cs))"
proof -
  let ?ready = "ready_call_sites deps unbatched"
  from assms obtain template others where t: "iter ?ready = template # others"
    by (cases "iter ?ready") (auto simp: batch_call_sites_def Let_def split: if_splits)
  let ?similar = "similar_call_sites sc template ?ready"
  from assms t have ne: "?similar \<noteq> {}" and s: "sorted_by_axis0_len (iter ?similar) = Inr batch"
    by (auto simp: batch_call_sites_def Let_def split: if_splits)
  from sorted_by_axis0_len_Inr[OF s] have "batch = sort_key axis0_key (iter ?similar)"
    "\<forall>cs \<in> set batch. get_axis0_len cs = Inr (axis0_key cs)"
    by simp_all
  with t ne show ?thesis by blast
qed

lemma ready_subset: "ready_call_sites deps unbatched \<subseteq> unbatched"
  by (auto simp: ready_call_sites_def)

lemma similar_subset: "similar_call_sites sc template ready \<subseteq> ready"
  by (auto simp: similar_call_sites_def)

lemma sorted_keys_unique:
  assumes "sorted (map f xs)" "sorted (map f ys)" "distinct xs" "distinct ys"
    "set xs = set ys" "inj_on f (set xs)"
  shows "xs = ys"
proof -
  have "distinct (map f xs)" "distinct (map f ys)"
    using assms by (simp_all add: distinct_map)
  moreover have "set (map f xs) = set (map f ys)" using assms by simp
  ultimately have "map f xs = map f ys"
    using assms(1,2) by (intro sorted_distinct_set_unique) simp_all
  then show ?thesis
    using assms(5,6) inj_on_map_eq_map[of f xs ys] by simp
qed


lemma batch_call_sites_set:
  assumes e: "\<forall>S. S \<subseteq> unbatched \<longrightarrow> enumerates iter S"
    and b: "batch_call_sites iter sc deps unbatched = Inr batch"
  shows "\<exists>template. template \<in> ready_call_sites deps unbatched
           \<and> iter (ready_call_sites deps unbatched) = template # tl (iter (ready_call_sites deps unbatched))
           \<and> set batch = similar_call_sites sc template (ready_call_sites deps unbatched)
           \<and> batch = sort_key axis0_key (iter (set batch))"
    and "distinct batch" and "batch \<noteq> []" and "set batch \<subseteq> unbatched"
proof -
  let ?ready = "ready_call_sites deps unbatched"
  from batch_call_sites_Inr[OF b] obtain template others where
    t: "iter ?ready = template # others"
    and ne: "similar_call_sites sc template ?ready \<noteq> {}"
    and s: "batch = sort_key axis0_key (iter (similar_call_sites sc template ?ready))"
    by blast
  let ?similar = "similar_call_sites sc template ?ready"
  have sub: "?similar \<subseteq> unbatched" using similar_subset ready_subset by blast
  from e ready_subset have er: "enumerates iter ?ready" by blast
  from e sub have es: "enumerates iter ?similar" by blast
  from er t have tin: "template \<in> ?ready"
    by (metis enumerates_def list.set_intros(1))
  from s es have sb: "set batch = ?similar" by (simp add: enumerates_def)
  from s es show "distinct batch" by (simp add: enumerates_def)
  from sb ne show "batch \<noteq> []" by auto
  from sb sub show "set batch \<subseteq> unbatched" by simp
  from t tin sb s show "\<exists>template. template \<in> ?ready
           \<and> iter ?ready = template # tl (iter ?ready)
           \<and> set batch = similar_call_sites sc template ?ready
           \<and> batch = sort_key axis0_key (iter (set batch))"
    by auto
qed

text \<open>With an iteration order that enumerates the sets, the loop ends within as many
  turns as there are unbatched call sites.\<close>

lemma call_site_batches_returns:
  "finite unbatched \<Longrightarrow> \<forall>S. S \<subseteq> unbatched \<longrightarrow> enumerates iter S \<Longrightarrow> card unbatched \<le> fuel
     \<Longrightarrow> call_site_batches fuel iter sc deps unbatched \<noteq> None"
proof (induction fuel arbitrary: unbatched)
  case 0
  then show ?case by simp
next
  case (Suc n)
  show ?case
  proof (cases "unbatched = {}")
    case True
    then show ?thesis by simp
  next
    case False
    show ?thesis
    proof (cases "batch_call_sites iter sc deps unbatched")
      case (Inl e)
      with False show ?thesis by simp
    next
      case (Inr batch)
      from batch_call_sites_set(3,4)[OF Suc.prems(2) Inr]
      have ne: "batch \<noteq> []" and sub: "set batch \<subseteq> unbatched" .
      from ne obtain x where x: "x \<in> set batch" by (cases batch) auto
      with sub have "unbatched - set batch \<subset> unbatched" by blast
      with Suc.prems(1) have "card (unbatched - set batch) < card unbatched"
        by (rule psubset_card_mono)
      with Suc.prems(3) have c: "card (unbatched - set batch) \<le> n" by simp
      have "call_site_batches n iter sc deps (unbatched - set batch) \<noteq> None"
        using Suc.prems(1,2) c by (intro Suc.IH) auto
      with False Inr show ?thesis by (auto split: option.splits sum.splits)
    qed
  qed
qed

text \<open>
  Claim C7, amended. Each batch of \<open>concatenate_calls\<close> is the set of ready call sites
  similar to a template, ordered by the axis-0 length of the first return with a stable
  sort: the lengths are nondecreasing along the batch, and call sites of equal length
  stay in the order in which the set is iterated, which the program does not fix. Two
  runs that iterate the sets in different orders and form the same set of call sites
  produce the same batch when the axis-0 lengths in it are pairwise different.
\<close>

theorem batch_order_up_to_ties:
  assumes e1: "\<forall>S. S \<subseteq> unbatched \<longrightarrow> enumerates iter1 S"
    and e2: "\<forall>S. S \<subseteq> unbatched \<longrightarrow> enumerates iter2 S"
    and b1: "batch_call_sites iter1 sc deps unbatched = Inr batch1"
    and b2: "batch_call_sites iter2 sc deps unbatched = Inr batch2"
  shows "sorted (map axis0_key batch1)
    \<and> distinct batch1
    \<and> (\<exists>template. template \<in> ready_call_sites deps unbatched
          \<and> set batch1 = similar_call_sites sc template (ready_call_sites deps unbatched))
    \<and> (\<forall>cs \<in> set batch1. get_axis0_len cs = Inr (axis0_key cs))
    \<and> (\<forall>k. filter (\<lambda>cs. axis0_key cs = k) batch1
              = filter (\<lambda>cs. axis0_key cs = k) (iter1 (set batch1)))
    \<and> (set batch1 = set batch2 \<and> inj_on axis0_key (set batch1) \<longrightarrow> batch1 = batch2)"
proof -
  note s1 = batch_call_sites_set[OF e1 b1]
  note s2 = batch_call_sites_set[OF e2 b2]
  from s1(1) have srt1: "batch1 = sort_key axis0_key (iter1 (set batch1))" by blast
  from s2(1) have srt2: "batch2 = sort_key axis0_key (iter2 (set batch2))" by blast
  have sorted1: "sorted (map axis0_key batch1)" by (subst srt1) simp
  have sorted2: "sorted (map axis0_key batch2)" by (subst srt2) simp
  have stable: "\<forall>k. filter (\<lambda>cs. axis0_key cs = k) batch1
              = filter (\<lambda>cs. axis0_key cs = k) (iter1 (set batch1))"
  proof
    fix k
    have "filter (\<lambda>cs. axis0_key cs = k) (sort_key axis0_key (iter1 (set batch1)))
        = filter (\<lambda>cs. axis0_key cs = k) (iter1 (set batch1))"
      by (rule sort_key_stable)
    with srt1 show "filter (\<lambda>cs. axis0_key cs = k) batch1
              = filter (\<lambda>cs. axis0_key cs = k) (iter1 (set batch1))" by simp
  qed
  have keys: "\<forall>cs \<in> set batch1. get_axis0_len cs = Inr (axis0_key cs)"
    using batch_call_sites_Inr[OF b1] by blast
  have same: "set batch1 = set batch2 \<and> inj_on axis0_key (set batch1) \<longrightarrow> batch1 = batch2"
  proof
    assume h: "set batch1 = set batch2 \<and> inj_on axis0_key (set batch1)"
    show "batch1 = batch2"
      using sorted1 sorted2 s1(2) s2(2) h by (intro sorted_keys_unique[of axis0_key]) auto
  qed
  from s1(1) have tmpl: "\<exists>template. template \<in> ready_call_sites deps unbatched
          \<and> set batch1 = similar_call_sites sc template (ready_call_sites deps unbatched)"
    by blast
  from sorted1 s1(2) tmpl keys stable same show ?thesis by blast
qed


text \<open>
  Two call sites with 4 and 7 rows: whatever the iteration order, the batch is the one
  with 4 rows first.
\<close>

definition site_7 :: call_site_location where
  "site_7 = \<lparr>site_call = call_7, site_stack = []\<rparr>"

definition deps_4_7 :: "call_site_location \<rightharpoonup> call_site_location set" where
  "deps_4_7 = [site_a \<mapsto> {}, site_7 \<mapsto> {}]"

definition any_two :: "array \<Rightarrow> array \<Rightarrow> bool" where
  "any_two a b = True"

lemma site_a_neq_7: "site_a \<noteq> site_7"
  by (simp add: site_a_def site_7_def call_4_def call_7_def)

lemma axis0_7: "get_axis0_len site_7 = Inr 7"
  by (simp add: get_axis0_len_def site_7_def call_7_def out_7_def axis_len_def shape_of_def
      py_nth_def plain_meta_def)

lemma similar_a7: "is_similar any_two x y" if "x \<in> {site_a, site_7}" "y \<in> {site_a, site_7}"
  using that by (auto simp: is_similar_def any_two_def site_a_def site_7_def call_4_def call_7_def)

lemma batch_a7:
  "batch_call_sites (in_order [site_a, site_7]) any_two deps_4_7 {site_a, site_7}
     = Inr [site_a, site_7]"
  using site_a_neq_7
  by (auto simp: batch_call_sites_def ready_call_sites_def similar_call_sites_def deps_4_7_def
      in_order_def Let_def similar_a7 sorted_by_axis0_len_def axis0_a axis0_7)

lemma batch_7a:
  "batch_call_sites (in_order [site_7, site_a]) any_two deps_4_7 {site_a, site_7}
     = Inr [site_a, site_7]"
  using site_a_neq_7
  by (auto simp: batch_call_sites_def ready_call_sites_def similar_call_sites_def deps_4_7_def
      in_order_def Let_def similar_a7 sorted_by_axis0_len_def axis0_a axis0_7)

theorem batch_order_up_to_ties_witness:
  "batch_call_sites (in_order [site_a, site_7]) any_two deps_4_7 {site_a, site_7}
     = Inr [site_a, site_7]
   \<and> batch_call_sites (in_order [site_7, site_a]) any_two deps_4_7 {site_a, site_7}
     = Inr [site_a, site_7]
   \<and> sorted (map axis0_key [site_a, site_7])
   \<and> get_axis0_len site_a = Inr 4 \<and> get_axis0_len site_7 = Inr 7
   \<and> in_order [site_7, site_a] {site_a, site_7} = [site_7, site_a]"
proof -
  have e1: "\<forall>S. S \<subseteq> {site_a, site_7} \<longrightarrow> enumerates (in_order [site_a, site_7]) S"
    using site_a_neq_7 by (auto intro!: in_order_enumerates)
  have e2: "\<forall>S. S \<subseteq> {site_a, site_7} \<longrightarrow> enumerates (in_order [site_7, site_a]) S"
    using site_a_neq_7 by (auto intro!: in_order_enumerates)
  from batch_order_up_to_ties[OF e2 e1 batch_7a batch_a7]
  have "sorted (map axis0_key [site_a, site_7])" by blast
  moreover have "in_order [site_7, site_a] {site_a, site_7} = [site_7, site_a]"
    by (simp add: in_order_def)
  ultimately show ?thesis
    using batch_a7 batch_7a axis0_a axis0_7 by blast
qed

text \<open>
  The claim as stated fails: two call sites with the same axis-0 length are batched in
  the order in which the set is iterated, so two runs that iterate it differently
  concatenate the bindings in different orders and build different arrays.
\<close>

theorem batch_order_counterexample:
  "enumerates (in_order [site_a, site_b]) {site_a, site_b}
   \<and> enumerates (in_order [site_b, site_a]) {site_a, site_b}
   \<and> batch_call_sites (in_order [site_a, site_b]) (=) no_deps {site_a, site_b}
       = Inr [site_a, site_b]
   \<and> batch_call_sites (in_order [site_b, site_a]) (=) no_deps {site_a, site_b}
       = Inr [site_b, site_a]
   \<and> [site_a, site_b] \<noteq> [site_b, site_a]
   \<and> new_call_binding first_dtype False (map site_call [site_a, site_b]) ''x''
         (ConcatableAlongAxis 0)
       \<noteq> new_call_binding first_dtype False (map site_call [site_b, site_a]) ''x''
         (ConcatableAlongAxis 0)"
proof -
  have "enumerates (in_order [site_a, site_b]) {site_a, site_b}"
    "enumerates (in_order [site_b, site_a]) {site_a, site_b}"
    using site_a_neq_b by (auto intro!: in_order_enumerates)
  moreover have "new_call_binding first_dtype False (map site_call [site_a, site_b]) ''x''
         (ConcatableAlongAxis 0)
       \<noteq> new_call_binding first_dtype False (map site_call [site_b, site_a]) ''x''
         (ConcatableAlongAxis 0)"
    by (simp add: site_a_def site_b_def new_call_binding_def lookup_binding_def call_4_def
      call_4_b_def input_concatenator_def concatenate_def have_same_axis_length_except_def
      have_same_axis_length_def get_concatenated_shape_def ndim_def axis_len_def shape_of_def
      py_nth_def are_shape_components_equal_def plain_meta_def with_tagged_axis_meta_def
      tagged_meta_def Let_def)
  ultimately show ?thesis
    using batch_ab batch_ba site_a_neq_b by simp
qed

section \<open>Zeroing the unused bindings of calls\<close>

text \<open>
  The expressions a transformation takes: an array, a dictionary of named arrays or a
  call (\<open>ArrayOrNames\<close>).
\<close>

datatype array_or_names =
    AnArray array
  | ADictOfNamedArrays "(string \<times> array) list" "tag set"
  | ACall call

text \<open>\<open>call_to_used_inputs\<close>: for a call, the inputs of its function that are used.\<close>

type_synonym used_inputs = "call \<rightharpoonup> array set"

text \<open>
  \<open>_UsedCallInputCollector\<close>. Its \<open>map_named_call_result\<close> adds the inputs gathered from
  the named return to the entry of the call (\<open>setdefault\<close> and \<open>|=\<close>) and goes on with the
  walk of the base class. \<open>InputGatherer\<close> is the parameter \<open>input_gatherer\<close>.

  Modelled from the spec: the walk of \<open>CachedWalkMapper\<close>, which is not among the
  sources. It visits the children of each node; at a call it crosses into the function
  body with the mapper that \<open>clone_for_callee\<close> gives, and then visits the bindings. The
  clone of \<open>_UsedCallInputCollector\<close> is built by its constructor, which starts it with
  an empty \<open>call_to_used_inputs\<close>; nothing copies the entries of the clone back, so the
  walk of a function body contributes only its exceptions. The memo of visited nodes is
  left out: a second visit adds the same inputs to the same entries.
\<close>

fun collect_array :: "(array \<Rightarrow> array set) \<Rightarrow> array \<Rightarrow> used_inputs \<Rightarrow> error + used_inputs"
and collect_arrays :: "(array \<Rightarrow> array set) \<Rightarrow> array list \<Rightarrow> used_inputs \<Rightarrow> error + used_inputs"
and collect_named :: "(array \<Rightarrow> array set) \<Rightarrow> (string \<times> array) list \<Rightarrow> used_inputs \<Rightarrow> error + used_inputs"
and collect_call :: "(array \<Rightarrow> array set) \<Rightarrow> call \<Rightarrow> used_inputs \<Rightarrow> error + used_inputs"
and collect_function :: "(array \<Rightarrow> array set) \<Rightarrow> function_definition \<Rightarrow> error + used_inputs"
where
  "collect_array input_gatherer (Placeholder n m) used = Inr used"
| "collect_array input_gatherer (DataWrapper n m) used = Inr used"
| "collect_array input_gatherer (IndexLambda e bnds m) used = collect_named input_gatherer bnds used"
| "collect_array input_gatherer (Concatenate arrays axis m) used =
     collect_arrays input_gatherer arrays used"
| "collect_array input_gatherer (BasicIndex a idx m) used = collect_array input_gatherer a used"
| "collect_array input_gatherer (NamedCallResult c name) used =
     (case map_of (returns_of (function_of c)) name of
        None \<Rightarrow> Inl KeyError
      | Some ret \<Rightarrow>
          collect_call input_gatherer c
            (used(c \<mapsto> (case used c of None \<Rightarrow> {} | Some s \<Rightarrow> s) \<union> input_gatherer ret)))"
| "collect_arrays input_gatherer [] used = Inr used"
| "collect_arrays input_gatherer (a # rest) used =
     (case collect_array input_gatherer a used of
        Inl e \<Rightarrow> Inl e
      | Inr used' \<Rightarrow> collect_arrays input_gatherer rest used')"
| "collect_named input_gatherer [] used = Inr used"
| "collect_named input_gatherer ((name, a) # rest) used =
     (case collect_array input_gatherer a used of
        Inl e \<Rightarrow> Inl e
      | Inr used' \<Rightarrow> collect_named input_gatherer rest used')"
| "collect_call input_gatherer (Call f bnds ts) used =
     (case collect_function input_gatherer f of
        Inl e \<Rightarrow> Inl e
      | Inr used_in_clone \<Rightarrow> collect_named input_gatherer bnds used)"
| "collect_function input_gatherer (FunctionDefinition ps rt rets ts) =
     collect_named input_gatherer rets Map.empty"

text \<open>\<open>_collect_used_call_inputs\<close>.\<close>

fun collect_used_call_inputs ::
    "(array \<Rightarrow> array set) \<Rightarrow> array_or_names \<Rightarrow> error + used_inputs" where
  "collect_used_call_inputs input_gatherer (AnArray a) =
     collect_array input_gatherer a Map.empty"
| "collect_used_call_inputs input_gatherer (ADictOfNamedArrays data ts) =
     collect_named input_gatherer data Map.empty"
| "collect_used_call_inputs input_gatherer (ACall c) =
     collect_call input_gatherer c Map.empty"

text \<open>
  Modelled from the spec: \<open>zeros(shape, dtype)\<close>, which is not among the sources: an
  array of the given shape and dtype all of whose elements are zero, with no operands.
\<close>

definition zeros :: "int list \<Rightarrow> string \<Rightarrow> array" where
  "zeros s d = IndexLambda (Constant 0) [] (plain_meta s d)"

text \<open>
  \<open>_UnusedCallBindingZeroer\<close>. \<open>zero_call_bindings\<close> is the loop of its \<open>map_call\<close> over
  \<open>expr.bindings.items()\<close>, given the function of the call and the entry of the call in
  \<open>call_to_used_inputs\<close> (\<open>None\<close> when it has none: the lookup raises \<open>KeyError\<close>).
  \<open>FunctionDefinition.get_placeholder\<close> is the parameter \<open>get_placeholder\<close>. The rebuilt
  call has the value of \<open>expr\<close> when nothing changed.

  Modelled from the spec: the other methods of \<open>CopyMapper\<close>, which is not among the
  sources. Each node is rebuilt from its mapped children; a named call result is
  rebuilt on the mapped call; a function definition is rebuilt from its returns mapped
  by the mapper that \<open>clone_for_callee\<close> gives, which here shares \<open>call_to_used_inputs\<close>.
\<close>

fun zero_array ::
    "(function_definition \<Rightarrow> string \<Rightarrow> error + array) \<Rightarrow> used_inputs \<Rightarrow> array \<Rightarrow> error + array"
and zero_arrays ::
    "(function_definition \<Rightarrow> string \<Rightarrow> error + array) \<Rightarrow> used_inputs \<Rightarrow> array list \<Rightarrow>
     error + array list"
and zero_named ::
    "(function_definition \<Rightarrow> string \<Rightarrow> error + array) \<Rightarrow> used_inputs \<Rightarrow>
     (string \<times> array) list \<Rightarrow> error + (string \<times> array) list"
and zero_call ::
    "(function_definition \<Rightarrow> string \<Rightarrow> error + array) \<Rightarrow> used_inputs \<Rightarrow> call \<Rightarrow> error + call"
and zero_call_bindings ::
    "(function_definition \<Rightarrow> string \<Rightarrow> error + array) \<Rightarrow> used_inputs \<Rightarrow>
     function_definition \<Rightarrow> array set option \<Rightarrow> (string \<times> array) list \<Rightarrow>
     error + (string \<times> array) list"
and zero_function ::
    "(function_definition \<Rightarrow> string \<Rightarrow> error + array) \<Rightarrow> used_inputs \<Rightarrow>
     function_definition \<Rightarrow> error + function_definition"
where
  "zero_array get_placeholder used (Placeholder n m) = Inr (Placeholder n m)"
| "zero_array get_placeholder used (DataWrapper n m) = Inr (DataWrapper n m)"
| "zero_array get_placeholder used (IndexLambda e bnds m) =
     (case zero_named get_placeholder used bnds of
        Inl e \<Rightarrow> Inl e
      | Inr bnds' \<Rightarrow> Inr (IndexLambda e bnds' m))"
| "zero_array get_placeholder used (Concatenate arrays axis m) =
     (case zero_arrays get_placeholder used arrays of
        Inl e \<Rightarrow> Inl e
      | Inr arrays' \<Rightarrow> Inr (Concatenate arrays' axis m))"
| "zero_array get_placeholder used (BasicIndex a idx m) =
     (case zero_array get_placeholder used a of
        Inl e \<Rightarrow> Inl e
      | Inr a' \<Rightarrow> Inr (BasicIndex a' idx m))"
| "zero_array get_placeholder used (NamedCallResult c name) =
     (case zero_call get_placeholder used c of
        Inl e \<Rightarrow> Inl e
      | Inr c' \<Rightarrow> Inr (NamedCallResult c' name))"
| "zero_arrays get_placeholder used [] = Inr []"
| "zero_arrays get_placeholder used (a # rest) =
     (case zero_array get_placeholder used a of
        Inl e \<Rightarrow> Inl e
      | Inr a' \<Rightarrow>
          (case zero_arrays get_placeholder used rest of
             Inl e \<Rightarrow> Inl e
           | Inr rest' \<Rightarrow> Inr (a' # rest')))"
| "zero_named get_placeholder used [] = Inr []"
| "zero_named get_placeholder used ((name, a) # rest) =
     (case zero_array get_placeholder used a of
        Inl e \<Rightarrow> Inl e
      | Inr a' \<Rightarrow>
          (case zero_named get_placeholder used rest of
             Inl e \<Rightarrow> Inl e
           | Inr rest' \<Rightarrow> Inr ((name, a') # rest')))"
| "zero_call get_placeholder used (Call f bnds ts) =
     (case zero_function get_placeholder used f of
        Inl e \<Rightarrow> Inl e
      | Inr new_function \<Rightarrow>
          (case zero_call_bindings get_placeholder used f (used (Call f bnds ts)) bnds of
             Inl e \<Rightarrow> Inl e
           | Inr new_bindings \<Rightarrow> Inr (Call new_function new_bindings ts)))"
| "zero_call_bindings get_placeholder used f entry [] = Inr []"
| "zero_call_bindings get_placeholder used f entry ((name, bnd) # rest) =
     (case get_placeholder f name of
        Inl e \<Rightarrow> Inl e
      | Inr p \<Rightarrow>
          (case entry of
             None \<Rightarrow> Inl KeyError
           | Some used_inputs \<Rightarrow>
               (case (if p \<in> used_inputs then zero_array get_placeholder used bnd
                      else (case meta_of bnd of
                              Inl e \<Rightarrow> Inl e
                            | Inr m \<Rightarrow> Inr (zeros (shape m) (dtype m)))) of
                  Inl e \<Rightarrow> Inl e
                | Inr new_bnd \<Rightarrow>
                    (case zero_call_bindings get_placeholder used f entry rest of
                       Inl e \<Rightarrow> Inl e
                     | Inr rest' \<Rightarrow> Inr ((name, new_bnd) # rest')))))"
| "zero_function get_placeholder used (FunctionDefinition ps rt rets ts) =
     (case zero_named get_placeholder used rets of
        Inl e \<Rightarrow> Inl e
      | Inr rets' \<Rightarrow> Inr (FunctionDefinition ps rt rets' ts))"

text \<open>The mapper applied to the expression, and \<open>zero_unused_call_bindings\<close>.\<close>

fun unused_call_binding_zeroer ::
    "(function_definition \<Rightarrow> string \<Rightarrow> error + array) \<Rightarrow> used_inputs \<Rightarrow> array_or_names \<Rightarrow>
     error + array_or_names" where
  "unused_call_binding_zeroer get_placeholder used (AnArray a) =
     (case zero_array get_placeholder used a of Inl e \<Rightarrow> Inl e | Inr a' \<Rightarrow> Inr (AnArray a'))"
| "unused_call_binding_zeroer get_placeholder used (ADictOfNamedArrays data ts) =
     (case zero_named get_placeholder used data of
        Inl e \<Rightarrow> Inl e
      | Inr data' \<Rightarrow> Inr (ADictOfNamedArrays data' ts))"
| "unused_call_binding_zeroer get_placeholder used (ACall c) =
     (case zero_call get_placeholder used c of Inl e \<Rightarrow> Inl e | Inr c' \<Rightarrow> Inr (ACall c'))"

definition zero_unused_call_bindings ::
    "(array \<Rightarrow> array set) \<Rightarrow> (function_definition \<Rightarrow> string \<Rightarrow> error + array) \<Rightarrow>
     array_or_names \<Rightarrow> error + array_or_names" where
  "zero_unused_call_bindings input_gatherer get_placeholder expr =
     (case collect_used_call_inputs input_gatherer expr of
        Inl e \<Rightarrow> Inl e
      | Inr call_to_used_inputs \<Rightarrow>
          unused_call_binding_zeroer get_placeholder call_to_used_inputs expr)"


text \<open>
  What the loop of \<open>map_call\<close> does with each binding when the call has an entry: the
  binding whose placeholder is in the entry is mapped, any other becomes an array of
  zeros with the shape and dtype of the binding.
\<close>

lemma zeros_meta: "meta_of (zeros s d) = Inr (plain_meta s d)"
  by (simp add: zeros_def)

lemma zero_call_bindings_nth:
  "zero_call_bindings get_placeholder used f (Some used_inputs) bnds = Inr bnds' \<Longrightarrow>
   length bnds' = length bnds \<and>
   (\<forall>i < length bnds.
      fst (bnds' ! i) = fst (bnds ! i)
      \<and> (\<exists>p. get_placeholder f (fst (bnds ! i)) = Inr p
            \<and> (p \<in> used_inputs \<longrightarrow>
                  zero_array get_placeholder used (snd (bnds ! i)) = Inr (snd (bnds' ! i)))
            \<and> (p \<notin> used_inputs \<longrightarrow>
                  (\<exists>m. meta_of (snd (bnds ! i)) = Inr m
                       \<and> snd (bnds' ! i) = zeros (shape m) (dtype m)))))"
proof (induction bnds arbitrary: bnds')
  case Nil
  then show ?case by simp
next
  case (Cons b rest)
  obtain name bnd where b: "b = (name, bnd)" by (cases b)
  let ?step = "\<lambda>p. if p \<in> used_inputs then zero_array get_placeholder used bnd
             else (case meta_of bnd of Inl e \<Rightarrow> Inl e
                   | Inr m \<Rightarrow> Inr (zeros (shape m) (dtype m)))"
  from Cons.prems b obtain p where p: "get_placeholder f name = Inr p"
    by (cases "get_placeholder f name") simp_all
  from Cons.prems b p obtain new_bnd where n: "?step p = Inr new_bnd"
    by (cases "?step p") simp_all
  from Cons.prems b p n obtain rest' where
    r: "zero_call_bindings get_placeholder used f (Some used_inputs) rest = Inr rest'"
    by (cases "zero_call_bindings get_placeholder used f (Some used_inputs) rest") simp_all
  from Cons.prems b p n r have e: "bnds' = (name, new_bnd) # rest'" by simp
  note ih = Cons.IH[OF r]
  have len: "length bnds' = length (b # rest)" using ih e by simp
  have each: "fst (bnds' ! i) = fst ((b # rest) ! i)
      \<and> (\<exists>p. get_placeholder f (fst ((b # rest) ! i)) = Inr p
            \<and> (p \<in> used_inputs \<longrightarrow>
                  zero_array get_placeholder used (snd ((b # rest) ! i)) = Inr (snd (bnds' ! i)))
            \<and> (p \<notin> used_inputs \<longrightarrow>
                  (\<exists>m. meta_of (snd ((b # rest) ! i)) = Inr m
                       \<and> snd (bnds' ! i) = zeros (shape m) (dtype m))))"
    if i: "i < length (b # rest)" for i
  proof (cases i)
    case 0
    with b e p n show ?thesis by (auto split: if_splits sum.splits)
  next
    case (Suc j)
    with i have "j < length rest" by simp
    with ih Suc e show ?thesis by simp
  qed
  from len each show ?case by blast
qed

text \<open>A call without an entry and with a binding: the lookup of the entry raises.\<close>

lemma zero_call_bindings_no_entry:
  "get_placeholder f name = Inr p \<Longrightarrow>
   zero_call_bindings get_placeholder used f None ((name, bnd) # rest) = Inl KeyError"
  by simp

text \<open>
  Concrete runs. The function \<open>g(a, b) = a + 1\<close> does not use \<open>b\<close>; it is called on the
  data \<open>u\<close> and \<open>v\<close>. In the runs the inputs of an array are the placeholders and data
  among its operands, and every parameter has a placeholder of four elements.
\<close>

fun gather_inputs :: "array \<Rightarrow> array set"
and gather_inputs_list :: "array list \<Rightarrow> array set"
and gather_inputs_named :: "(string \<times> array) list \<Rightarrow> array set"
and gather_inputs_call :: "call \<Rightarrow> array set"
where
  "gather_inputs (Placeholder n m) = {Placeholder n m}"
| "gather_inputs (DataWrapper n m) = {DataWrapper n m}"
| "gather_inputs (IndexLambda e bnds m) = gather_inputs_named bnds"
| "gather_inputs (Concatenate arrays axis m) = gather_inputs_list arrays"
| "gather_inputs (BasicIndex a idx m) = gather_inputs a"
| "gather_inputs (NamedCallResult c name) = gather_inputs_call c"
| "gather_inputs_list [] = {}"
| "gather_inputs_list (a # rest) = gather_inputs a \<union> gather_inputs_list rest"
| "gather_inputs_named [] = {}"
| "gather_inputs_named ((name, a) # rest) = gather_inputs a \<union> gather_inputs_named rest"
| "gather_inputs_call (Call f bnds ts) = gather_inputs_named bnds"

definition vec_4 :: meta where
  "vec_4 = plain_meta [4] ''float64''"

definition placeholder_4 :: "function_definition \<Rightarrow> string \<Rightarrow> error + array" where
  "placeholder_4 f name = Inr (Placeholder name vec_4)"

definition fn_g :: function_definition where
  "fn_g = FunctionDefinition {''a'', ''b''} ARRAY
     [(''out'', IndexLambda (Sum [Subscript ''in'' [Variable ''_0''], Constant 1])
                  [(''in'', Placeholder ''a'' vec_4)] vec_4)] {}"

definition call_g :: call where
  "call_g = Call fn_g [(''a'', DataWrapper (Some ''u'') vec_4),
                       (''b'', DataWrapper (Some ''v'') vec_4)] {}"

lemma zero_unused_example:
  "zero_unused_call_bindings gather_inputs placeholder_4 (AnArray (NamedCallResult call_g ''out''))
     = Inr (AnArray (NamedCallResult
         (Call fn_g [(''a'', DataWrapper (Some ''u'') vec_4), (''b'', zeros [4] ''float64'')] {})
         ''out''))"
  by (simp add: zero_unused_call_bindings_def call_g_def fn_g_def placeholder_4_def vec_4_def
      plain_meta_def)

text \<open>
  A call nested in a function body: \<open>f(x) = g(x, x)\<close>, called on the data \<open>u\<close>. The
  collector records the inputs the nested call uses in the clone it walks the body of
  \<open>f\<close> with, and the clone's entries are dropped.
\<close>

definition fn_f :: function_definition where
  "fn_f = FunctionDefinition {''x''} ARRAY
     [(''out'', NamedCallResult
         (Call fn_g [(''a'', Placeholder ''x'' vec_4), (''b'', Placeholder ''x'' vec_4)] {})
         ''out'')] {}"

definition call_f :: call where
  "call_f = Call fn_f [(''x'', DataWrapper (Some ''u'') vec_4)] {}"

lemma nested_call_collected:
  "collect_used_call_inputs gather_inputs (AnArray (NamedCallResult call_f ''out''))
     = Inr [call_f \<mapsto> {Placeholder ''x'' vec_4}]"
  by (simp add: call_f_def fn_f_def fn_g_def)

text \<open>
  Claim C5 at a concrete input. In \<open>f(x) = g(x, x)\<close> called on \<open>u\<close>, the parameter \<open>b\<close> of
  \<open>g\<close> is not reachable from the return of the nested call. Its binding is not
  replaced by zeros: \<open>zero_unused_call_bindings\<close> raises \<open>KeyError\<close>, whatever the input
  gatherer, because the nested call has no entry in \<open>call_to_used_inputs\<close>.
\<close>

theorem zero_unused_nested_call_raises:
  "zero_unused_call_bindings input_gatherer placeholder_4
     (AnArray (NamedCallResult call_f ''out'')) = Inl KeyError"
  by (simp add: zero_unused_call_bindings_def call_f_def fn_f_def fn_g_def placeholder_4_def)

section \<open>Inlining calls\<close>

text \<open>
  \<open>PlaceholderSubstitutor\<close>: a placeholder is replaced by \<open>substitutions[expr.name]\<close>, and a
  function definition is returned as it is (the mapper works in the current stack
  frame only).

  Modelled from the spec: the other methods of \<open>CopyMapper\<close>, which is not among the
  sources: each node is rebuilt from its mapped children, a call from its mapped
  function and its mapped bindings, a named call result on the mapped call.
\<close>

fun subst_array :: "(string \<times> array) list \<Rightarrow> array \<Rightarrow> error + array"
and subst_arrays :: "(string \<times> array) list \<Rightarrow> array list \<Rightarrow> error + array list"
and subst_named :: "(string \<times> array) list \<Rightarrow> (string \<times> array) list \<Rightarrow> error + (string \<times> array) list"
and subst_call :: "(string \<times> array) list \<Rightarrow> call \<Rightarrow> error + call"
where
  "subst_array substs (Placeholder n m) =
     (case map_of substs n of None \<Rightarrow> Inl KeyError | Some b \<Rightarrow> Inr b)"
| "subst_array substs (DataWrapper n m) = Inr (DataWrapper n m)"
| "subst_array substs (IndexLambda e bnds m) =
     (case subst_named substs bnds of
        Inl e \<Rightarrow> Inl e
      | Inr bnds' \<Rightarrow> Inr (IndexLambda e bnds' m))"
| "subst_array substs (Concatenate arrays axis m) =
     (case subst_arrays substs arrays of
        Inl e \<Rightarrow> Inl e
      | Inr arrays' \<Rightarrow> Inr (Concatenate arrays' axis m))"
| "subst_array substs (BasicIndex a idx m) =
     (case subst_array substs a of
        Inl e \<Rightarrow> Inl e
      | Inr a' \<Rightarrow> Inr (BasicIndex a' idx m))"
| "subst_array substs (NamedCallResult c name) =
     (case subst_call substs c of
        Inl e \<Rightarrow> Inl e
      | Inr c' \<Rightarrow> Inr (NamedCallResult c' name))"
| "subst_arrays substs [] = Inr []"
| "subst_arrays substs (a # rest) =
     (case subst_array substs a of
        Inl e \<Rightarrow> Inl e
      | Inr a' \<Rightarrow>
          (case subst_arrays substs rest of
             Inl e \<Rightarrow> Inl e
           | Inr rest' \<Rightarrow> Inr (a' # rest')))"
| "subst_named substs [] = Inr []"
| "subst_named substs ((name, a) # rest) =
     (case subst_array substs a of
        Inl e \<Rightarrow> Inl e
      | Inr a' \<Rightarrow>
          (case subst_named substs rest of
             Inl e \<Rightarrow> Inl e
           | Inr rest' \<Rightarrow> Inr ((name, a') # rest')))"
| "subst_call substs (Call f bnds ts) =
     (case subst_named substs bnds of
        Inl e \<Rightarrow> Inl e
      | Inr bnds' \<Rightarrow> Inr (Call f bnds' ts))"

text \<open>
  The weight of an expression once every call in it is inlined, given the weight
  \<open>env n\<close> of what stands for the placeholder \<open>n\<close>. A call weighs its bindings, its
  function under the weights of the bindings, and its function on its own.
\<close>

definition weights_of :: "(string \<times> nat) list \<Rightarrow> string \<Rightarrow> nat" where
  "weights_of ws n = (case map_of ws n of None \<Rightarrow> 1 | Some w \<Rightarrow> w)"

definition unit_weights :: "string \<Rightarrow> nat" where
  "unit_weights n = 1"

fun weight :: "(string \<Rightarrow> nat) \<Rightarrow> array \<Rightarrow> nat"
and weight_list :: "(string \<Rightarrow> nat) \<Rightarrow> array list \<Rightarrow> nat"
and weight_named :: "(string \<Rightarrow> nat) \<Rightarrow> (string \<times> array) list \<Rightarrow> nat"
and named_weights :: "(string \<Rightarrow> nat) \<Rightarrow> (string \<times> array) list \<Rightarrow> (string \<times> nat) list"
and weight_call :: "(string \<Rightarrow> nat) \<Rightarrow> call \<Rightarrow> nat"
and weight_function :: "(string \<Rightarrow> nat) \<Rightarrow> function_definition \<Rightarrow> nat"
where
  "weight env (Placeholder n m) = env n"
| "weight env (DataWrapper n m) = 1"
| "weight env (IndexLambda e bnds m) = Suc (weight_named env bnds)"
| "weight env (Concatenate arrays axis m) = Suc (weight_list env arrays)"
| "weight env (BasicIndex a idx m) = Suc (weight env a)"
| "weight env (NamedCallResult c name) = Suc (weight_call env c)"
| "weight_list env [] = 0"
| "weight_list env (a # rest) = Suc (weight env a + weight_list env rest)"
| "weight_named env [] = 0"
| "weight_named env ((name, a) # rest) = Suc (weight env a + weight_named env rest)"
| "named_weights env [] = []"
| "named_weights env ((name, a) # rest) = (name, weight env a) # named_weights env rest"
| "weight_call env (Call f bnds ts) =
     Suc (weight_named env bnds + weight_function (weights_of (named_weights env bnds)) f
          + weight_function unit_weights f)"
| "weight_function env (FunctionDefinition ps rt rets ts) = Suc (weight_named env rets)"

text \<open>Substituting the bindings for the placeholders gives what the weights of the
  bindings announce.\<close>

lemma weights_of_named_weights:
  "map_of bnds n = Some b \<Longrightarrow> weights_of (named_weights env bnds) n = weight env b"
  by (induction bnds) (auto simp: weights_of_def)

lemma weight_subst:
  "subst_array bnds a = Inr a' \<Longrightarrow>
     weight env a' = weight (weights_of (named_weights env bnds)) a"
  "subst_arrays bnds arrays = Inr arrays' \<Longrightarrow>
     weight_list env arrays' = weight_list (weights_of (named_weights env bnds)) arrays"
  "subst_named bnds named = Inr named' \<Longrightarrow>
     weight_named env named' = weight_named (weights_of (named_weights env bnds)) named
     \<and> named_weights env named' = named_weights (weights_of (named_weights env bnds)) named"
  "subst_call bnds c = Inr c' \<Longrightarrow>
     weight_call env c' = weight_call (weights_of (named_weights env bnds)) c"
proof (induction bnds a and bnds arrays and bnds named and bnds c
    arbitrary: a' and arrays' and named' and c'
    rule: subst_array_subst_arrays_subst_named_subst_call.induct)
  case (1 substs n m)
  then show ?case by (auto simp: weights_of_named_weights split: option.splits)
next
  case (2 substs n m)
  then show ?case by auto
next
  case (3 substs e bnds m)
  then show ?case by (auto split: sum.splits)
next
  case (4 substs arrays axis m)
  then show ?case by (auto split: sum.splits)
next
  case (5 substs a idx m)
  then show ?case by (auto split: sum.splits)
next
  case (6 substs c name)
  then show ?case by (auto split: sum.splits)
next
  case (7 substs)
  then show ?case by auto
next
  case (8 substs a rest)
  then show ?case by (auto split: sum.splits)
next
  case (9 substs)
  then show ?case by auto
next
  case (10 substs name a rest)
  then show ?case by (auto split: sum.splits)
next
  case (11 substs f bnds ts)
  then show ?case by (auto split: sum.splits)
qed

text \<open>
  \<open>Inliner\<close>. Its \<open>map_call\<close> builds, for a call tagged \<open>InlineCallTag\<close>, the dictionary of
  the returns, each with the placeholders substituted by the bindings of the call and
  then mapped by the inliner itself; its \<open>map_named_call_result\<close> maps the call and takes
  the named entry of what comes back. \<open>inline_returns\<close> is the dictionary comprehension
  of \<open>map_call\<close>.

  Modelled from the spec: the other methods of \<open>CopyMapper\<close>, as for
  \<open>PlaceholderSubstitutor\<close>; a function definition is rebuilt from its mapped returns.
\<close>

function inline_array :: "array \<Rightarrow> error + array"
and inline_arrays :: "array list \<Rightarrow> error + array list"
and inline_named :: "(string \<times> array) list \<Rightarrow> error + (string \<times> array) list"
and inline_call :: "call \<Rightarrow> error + array_or_names"
and inline_returns :: "(string \<times> array) list \<Rightarrow> (string \<times> array) list \<Rightarrow> error + (string \<times> array) list"
and inline_function :: "function_definition \<Rightarrow> error + function_definition"
where
  "inline_array (Placeholder n m) = Inr (Placeholder n m)"
| "inline_array (DataWrapper n m) = Inr (DataWrapper n m)"
| "inline_array (IndexLambda e bnds m) =
     (case inline_named bnds of
        Inl e \<Rightarrow> Inl e
      | Inr bnds' \<Rightarrow> Inr (IndexLambda e bnds' m))"
| "inline_array (Concatenate arrays axis m) =
     (case inline_arrays arrays of
        Inl e \<Rightarrow> Inl e
      | Inr arrays' \<Rightarrow> Inr (Concatenate arrays' axis m))"
| "inline_array (BasicIndex a idx m) =
     (case inline_array a of
        Inl e \<Rightarrow> Inl e
      | Inr a' \<Rightarrow> Inr (BasicIndex a' idx m))"
| "inline_array (NamedCallResult c name) =
     (case inline_call c of
        Inl e \<Rightarrow> Inl e
      | Inr (ACall new_call) \<Rightarrow> Inr (NamedCallResult new_call name)
      | Inr (ADictOfNamedArrays data ts) \<Rightarrow>
          (case map_of data name of None \<Rightarrow> Inl KeyError | Some a \<Rightarrow> Inr a)
      | Inr (AnArray a) \<Rightarrow> Inl AssertionError)"
| "inline_arrays [] = Inr []"
| "inline_arrays (a # rest) =
     (case inline_array a of
        Inl e \<Rightarrow> Inl e
      | Inr a' \<Rightarrow>
          (case inline_arrays rest of
             Inl e \<Rightarrow> Inl e
           | Inr rest' \<Rightarrow> Inr (a' # rest')))"
| "inline_named [] = Inr []"
| "inline_named ((name, a) # rest) =
     (case inline_array a of
        Inl e \<Rightarrow> Inl e
      | Inr a' \<Rightarrow>
          (case inline_named rest of
             Inl e \<Rightarrow> Inl e
           | Inr rest' \<Rightarrow> Inr ((name, a') # rest')))"
| "inline_call (Call f bnds ts) =
     (if InlineCallTag \<in> ts
      then (case inline_returns bnds (returns_of f) of
              Inl e \<Rightarrow> Inl e
            | Inr data \<Rightarrow> Inr (ADictOfNamedArrays data ts))
      else (case inline_function f of
              Inl e \<Rightarrow> Inl e
            | Inr new_function \<Rightarrow>
                (case inline_named bnds of
                   Inl e \<Rightarrow> Inl e
                 | Inr new_bindings \<Rightarrow> Inr (ACall (Call new_function new_bindings ts)))))"
| "inline_returns bnds [] = Inr []"
| "inline_returns bnds ((name, ret) # rest) =
     (case subst_array bnds ret of
        Inl e \<Rightarrow> Inl e
      | Inr body \<Rightarrow>
          (case inline_array body of
             Inl e \<Rightarrow> Inl e
           | Inr a \<Rightarrow>
               (case inline_returns bnds rest of
                  Inl e \<Rightarrow> Inl e
                | Inr rest' \<Rightarrow> Inr ((name, a) # rest'))))"
| "inline_function (FunctionDefinition ps rt rets ts) =
     (case inline_named rets of
        Inl e \<Rightarrow> Inl e
      | Inr rets' \<Rightarrow> Inr (FunctionDefinition ps rt rets' ts))"
  by pat_completeness auto

termination
proof (relation "measure (\<lambda>x. case x of
      Inl (Inl a) \<Rightarrow> weight unit_weights a
    | Inl (Inr (Inl arrays)) \<Rightarrow> weight_list unit_weights arrays
    | Inl (Inr (Inr named)) \<Rightarrow> weight_named unit_weights named
    | Inr (Inl c) \<Rightarrow> weight_call unit_weights c
    | Inr (Inr (Inl (bnds, rets))) \<Rightarrow>
        weight_named (weights_of (named_weights unit_weights bnds)) rets
    | Inr (Inr (Inr f)) \<Rightarrow> weight_function unit_weights f)", goal_cases)
  case 1
  then show ?case by simp
next
  case (10 f bnds ts)
  then show ?case by (cases f) simp
next
  case (11 f bnds ts)
  then show ?case by (cases f) simp
next
  case (13 bnds name ret rest body)
  then show ?case by (simp add: weight_subst(1))
qed simp_all




fun frame_placeholders :: "array \<Rightarrow> string set"
and frame_placeholders_list :: "array list \<Rightarrow> string set"
and frame_placeholders_named :: "(string \<times> array) list \<Rightarrow> string set"
and frame_placeholders_call :: "call \<Rightarrow> string set"
where
  "frame_placeholders (Placeholder n m) = {n}"
| "frame_placeholders (DataWrapper n m) = {}"
| "frame_placeholders (IndexLambda e bnds m) = frame_placeholders_named bnds"
| "frame_placeholders (Concatenate arrays axis m) = frame_placeholders_list arrays"
| "frame_placeholders (BasicIndex a idx m) = frame_placeholders a"
| "frame_placeholders (NamedCallResult c name) = frame_placeholders_call c"
| "frame_placeholders_list [] = {}"
| "frame_placeholders_list (a # rest) = frame_placeholders a \<union> frame_placeholders_list rest"
| "frame_placeholders_named [] = {}"
| "frame_placeholders_named ((name, a) # rest) =
     frame_placeholders a \<union> frame_placeholders_named rest"
| "frame_placeholders_call (Call f bnds ts) = frame_placeholders_named bnds"













text \<open>
  The inliner returns on every expression in which each call binds the placeholders its
  function's returns hold and each named call result names a return of its call.
\<close>

fun well_bound :: "array \<Rightarrow> bool"
and well_bound_list :: "array list \<Rightarrow> bool"
and well_bound_named :: "(string \<times> array) list \<Rightarrow> bool"
and call_well_bound :: "call \<Rightarrow> bool"
and function_well_bound :: "function_definition \<Rightarrow> bool"
where
  "well_bound (Placeholder n m) = True"
| "well_bound (DataWrapper n m) = True"
| "well_bound (IndexLambda e bnds m) = well_bound_named bnds"
| "well_bound (Concatenate arrays axis m) = well_bound_list arrays"
| "well_bound (BasicIndex a idx m) = well_bound a"
| "well_bound (NamedCallResult c name) =
     (call_well_bound c \<and> name \<in> fst ` set (returns_of (function_of c)))"
| "well_bound_list [] = True"
| "well_bound_list (a # rest) = (well_bound a \<and> well_bound_list rest)"
| "well_bound_named [] = True"
| "well_bound_named ((name, a) # rest) = (well_bound a \<and> well_bound_named rest)"
| "call_well_bound (Call f bnds ts) =
     (well_bound_named bnds \<and> function_well_bound f
      \<and> frame_placeholders_named (returns_of f) \<subseteq> fst ` set bnds)"
| "function_well_bound (FunctionDefinition ps rt rets ts) = well_bound_named rets"

lemma well_bound_named_lookup:
  "well_bound_named bnds \<Longrightarrow> map_of bnds n = Some b \<Longrightarrow> well_bound b"
  by (induction bnds) (auto split: if_splits)

lemma subst_returns:
  "frame_placeholders a \<subseteq> fst ` set bnds \<Longrightarrow> \<exists>a'. subst_array bnds a = Inr a'"
  "frame_placeholders_list arrays \<subseteq> fst ` set bnds \<Longrightarrow> \<exists>arrays'. subst_arrays bnds arrays = Inr arrays'"
  "frame_placeholders_named named \<subseteq> fst ` set bnds \<Longrightarrow> \<exists>named'. subst_named bnds named = Inr named'"
  "frame_placeholders_call c \<subseteq> fst ` set bnds \<Longrightarrow> \<exists>c'. subst_call bnds c = Inr c'"
proof (induction bnds a and bnds arrays and bnds named and bnds c
    rule: subst_array_subst_arrays_subst_named_subst_call.induct)
  case (1 substs n m)
  then have "map_of substs n \<noteq> None" by (simp add: map_of_eq_None_iff)
  then show ?case by auto
next
  case (8 substs a rest)
  then show ?case by fastforce
next
  case (10 substs name a rest)
  then show ?case by fastforce
qed auto

lemma subst_named_names:
  "subst_named bnds named = Inr named' \<Longrightarrow> map fst named' = map fst named"
  by (induction named arbitrary: named') (auto split: sum.splits)

lemma subst_well_bound:
  "subst_array bnds a = Inr a' \<Longrightarrow> well_bound_named bnds \<Longrightarrow> well_bound a \<Longrightarrow> well_bound a'"
  "subst_arrays bnds arrays = Inr arrays' \<Longrightarrow> well_bound_named bnds \<Longrightarrow>
     well_bound_list arrays \<Longrightarrow> well_bound_list arrays'"
  "subst_named bnds named = Inr named' \<Longrightarrow> well_bound_named bnds \<Longrightarrow>
     well_bound_named named \<Longrightarrow> well_bound_named named'"
  "subst_call bnds c = Inr c' \<Longrightarrow> well_bound_named bnds \<Longrightarrow> call_well_bound c \<Longrightarrow>
     call_well_bound c' \<and> function_of c' = function_of c"
proof (induction bnds a and bnds arrays and bnds named and bnds c
    arbitrary: a' and arrays' and named' and c'
    rule: subst_array_subst_arrays_subst_named_subst_call.induct)
  case (1 substs n m)
  then show ?case by (auto split: option.splits dest: well_bound_named_lookup)
next
  case (2 substs n m)
  then show ?case by auto
next
  case (3 substs e bnds m)
  then show ?case by (auto split: sum.splits)
next
  case (4 substs arrays axis m)
  then show ?case by (auto split: sum.splits)
next
  case (5 substs a idx m)
  then show ?case by (auto split: sum.splits)
next
  case (6 substs c name)
  from 6(2) obtain x where x: "subst_call substs c = Inr x" and e: "a' = NamedCallResult x name"
    by (auto split: sum.splits)
  from 6(1)[OF x 6(3)] 6(4) e show ?case by simp
next
  case (7 substs)
  then show ?case by auto
next
  case (8 substs a rest)
  then show ?case by (auto split: sum.splits)
next
  case (9 substs)
  then show ?case by auto
next
  case (10 substs name a rest)
  then show ?case by (auto split: sum.splits)
next
  case (11 substs f bnds ts)
  from 11(2) obtain bnds' where b: "subst_named substs bnds = Inr bnds'"
    and e: "c' = Call f bnds' ts"
    by (auto split: sum.splits)
  from subst_named_names[OF b] have "fst ` set bnds' = fst ` set bnds"
    by (metis set_map)
  with 11(1)[OF b 11(3)] 11(4) e show ?case by simp
qed

lemma inline_calls_returns_aux:
  "well_bound a \<Longrightarrow> \<exists>a'. inline_array a = Inr a'"
  "well_bound_list arrays \<Longrightarrow> \<exists>arrays'. inline_arrays arrays = Inr arrays'"
  "well_bound_named named \<Longrightarrow> \<exists>named'. inline_named named = Inr named'"
  "call_well_bound c \<Longrightarrow>
     (\<exists>c'. inline_call c = Inr (ACall c'))
     \<or> (\<exists>data ts. inline_call c = Inr (ADictOfNamedArrays data ts)
           \<and> map fst data = map fst (returns_of (function_of c)))"
  "well_bound_named bnds \<Longrightarrow> well_bound_named rets \<Longrightarrow>
     frame_placeholders_named rets \<subseteq> fst ` set bnds \<Longrightarrow>
     \<exists>data. inline_returns bnds rets = Inr data \<and> map fst data = map fst rets"
  "function_well_bound f \<Longrightarrow> \<exists>f'. inline_function f = Inr f'"
proof (induction a and arrays and named and c and bnds rets and f
    rule: inline_array_inline_arrays_inline_named_inline_call_inline_returns_inline_function.induct)
  case (1 n m)
  then show ?case by simp
next
  case (2 n m)
  then show ?case by simp
next
  case (3 e bnds m)
  then show ?case by auto
next
  case (4 arrays axis m)
  then show ?case by auto
next
  case (5 a idx m)
  then show ?case by auto
next
  case (6 c name)
  from 6(2) have wc: "call_well_bound c" and nm: "name \<in> fst ` set (returns_of (function_of c))"
    by simp_all
  from 6(1)[OF wc] show ?case
  proof
    assume "\<exists>c'. inline_call c = Inr (ACall c')"
    then show ?thesis by auto
  next
    assume "\<exists>data ts. inline_call c = Inr (ADictOfNamedArrays data ts)
           \<and> map fst data = map fst (returns_of (function_of c))"
    then obtain data ts where d: "inline_call c = Inr (ADictOfNamedArrays data ts)"
      "map fst data = map fst (returns_of (function_of c))" by blast
    from d(2) nm have "name \<in> fst ` set data" by (metis set_map)
    then have "map_of data name \<noteq> None" by (simp add: map_of_eq_None_iff)
    with d(1) show ?thesis by auto
  qed
next
  case 7
  then show ?case by simp
next
  case (8 a rest)
  then show ?case by fastforce
next
  case 9
  then show ?case by simp
next
  case (10 name a rest)
  then show ?case by fastforce
next
  case (11 f bnds ts)
  show ?case
  proof (cases "InlineCallTag \<in> ts")
    case True
    obtain ps rt rets fts where f: "f = FunctionDefinition ps rt rets fts" by (cases f)
    from 11(4) f have "well_bound_named bnds" "well_bound_named (returns_of f)"
      "frame_placeholders_named (returns_of f) \<subseteq> fst ` set bnds" by simp_all
    from 11(1)[OF True this] True show ?thesis by auto
  next
    case False
    from 11(4) have wf: "function_well_bound f" and wb: "well_bound_named bnds" by simp_all
    from 11(2)[OF False wf] obtain f' where f': "inline_function f = Inr f'" by blast
    from 11(3)[OF False f' wb] obtain bnds' where "inline_named bnds = Inr bnds'" by blast
    with False f' show ?thesis by simp
  qed
next
  case (12 bnds)
  then show ?case by simp
next
  case (13 bnds name ret rest)
  from 13(5) have fp: "frame_placeholders ret \<subseteq> fst ` set bnds"
    "frame_placeholders_named rest \<subseteq> fst ` set bnds" by simp_all
  from 13(4) have wr: "well_bound ret" "well_bound_named rest" by simp_all
  from subst_returns(1)[OF fp(1)] obtain body where body: "subst_array bnds ret = Inr body"
    by blast
  from subst_well_bound(1)[OF body 13(3) wr(1)] have "well_bound body" .
  from 13(1)[OF body this] obtain a where a: "inline_array body = Inr a" by blast
  from 13(2)[OF body a 13(3) wr(2) fp(2)] obtain data where
    "inline_returns bnds rest = Inr data" "map fst data = map fst rest" by blast
  with body a show ?case by simp
next
  case (14 ps rt rets ts)
  then show ?case by auto
qed

lemma inline_array_returns: "well_bound a \<Longrightarrow> \<exists>a'. inline_array a = Inr a'"
  by (rule inline_calls_returns_aux(1))

end
